theory Spec2Isabelle
  imports Main "HOL-Library.Sublist"
begin

section \<open>The one-var rule: data model\<close>

text \<open>
  The rule lives in \<^verbatim>\<open>src/eslint/lib/rules/no-undefined.js\<close>, second module of the
  file (lines 88 to 655). The embedding follows the source function by function.
  JavaScript objects become records, \<^verbatim>\<open>undefined\<close> and \<^verbatim>\<open>null\<close> become
  \<open>None\<close>, a dereference of \<^verbatim>\<open>undefined\<close> becomes the error value \<open>TypeError\<close>,
  and the two mutable stacks of \<^verbatim>\<open>create\<close> become an explicit state.
\<close>

subsection \<open>Configuration\<close>

text \<open>The three policy tokens of the schema (source lines 184 to 186).\<close>

datatype mode = MODE_ALWAYS | MODE_NEVER | MODE_CONSECUTIVE

text \<open>
  \<^verbatim>\<open>node.kind\<close> of a variable declaration. The rule has options for the first three
  only; for any other kind \<^verbatim>\<open>options[type]\<close> is \<^verbatim>\<open>undefined\<close>.
\<close>

datatype kind = Var | Let | Const | Using | AwaitUsing

fun kind_text :: "kind \<Rightarrow> string" where
  "kind_text Var = ''var''"
| "kind_text Let = ''let''"
| "kind_text Const = ''const''"
| "kind_text Using = ''using''"
| "kind_text AwaitUsing = ''await using''"

text \<open>
  \<^verbatim>\<open>context.options[0]\<close>: absent, a string, or an object. A property of the object
  that is absent is \<open>None\<close>.
\<close>

record mode_object =
  mo_separateRequires :: "bool option"
  mo_var :: "mode option"
  mo_let :: "mode option"
  mo_const :: "mode option"
  mo_uninitialized :: "mode option"
  mo_initialized :: "mode option"

datatype config = NoOption | ModeString mode | ModeObject mode_object

text \<open>\<^verbatim>\<open>options[type]\<close>: the pair of modes of one kind; \<open>None\<close> is \<^verbatim>\<open>undefined\<close>.\<close>

record kind_options =
  opt_uninitialized :: "mode option"
  opt_initialized :: "mode option"

record options =
  separateRequires :: bool
  options_var :: kind_options
  options_let :: kind_options
  options_const :: kind_options

text \<open>
  Source lines 187 to 210. With a string, \<^verbatim>\<open>options.separateRequires\<close> stays
  \<^verbatim>\<open>undefined\<close>, which every test of it reads as false. \<^verbatim>\<open>Object.hasOwn\<close> on
  \<^verbatim>\<open>uninitialized\<close> and \<^verbatim>\<open>initialized\<close> overrides all three kinds.
\<close>

definition uniform_options :: "mode \<Rightarrow> options" where
  "uniform_options m =
     \<lparr> separateRequires = False,
       options_var = \<lparr> opt_uninitialized = Some m, opt_initialized = Some m \<rparr>,
       options_let = \<lparr> opt_uninitialized = Some m, opt_initialized = Some m \<rparr>,
       options_const = \<lparr> opt_uninitialized = Some m, opt_initialized = Some m \<rparr> \<rparr>"

definition override_mode :: "mode option \<Rightarrow> mode option \<Rightarrow> mode option" where
  "override_mode own per_kind = (case own of None \<Rightarrow> per_kind | Some m \<Rightarrow> Some m)"

definition object_kind_options :: "mode_object \<Rightarrow> mode option \<Rightarrow> kind_options" where
  "object_kind_options mo per_kind =
     \<lparr> opt_uninitialized = override_mode (mo_uninitialized mo) per_kind,
       opt_initialized = override_mode (mo_initialized mo) per_kind \<rparr>"

fun create_options :: "config \<Rightarrow> options" where
  "create_options NoOption = uniform_options MODE_ALWAYS"
| "create_options (ModeString m) = uniform_options m"
| "create_options (ModeObject mo) =
     \<lparr> separateRequires = (mo_separateRequires mo = Some True),
       options_var = object_kind_options mo (mo_var mo),
       options_let = object_kind_options mo (mo_let mo),
       options_const = object_kind_options mo (mo_const mo) \<rparr>"

fun options_of :: "options \<Rightarrow> kind \<Rightarrow> kind_options option" where
  "options_of opts Var = Some (options_var opts)"
| "options_of opts Let = Some (options_let opts)"
| "options_of opts Const = Some (options_const opts)"
| "options_of opts Using = None"
| "options_of opts AwaitUsing = None"

subsection \<open>Syntax tree\<close>

text \<open>
  Of an initializer the rule reads \<^verbatim>\<open>init.type\<close> and \<^verbatim>\<open>init.callee.name\<close> only.
  A callee has a name when it is an identifier.
\<close>

datatype expr = Identifier string | CallExpression expr | OtherExpression

fun callee_name :: "expr \<Rightarrow> string option" where
  "callee_name (Identifier n) = Some n"
| "callee_name (CallExpression f) = None"
| "callee_name OtherExpression = None"

text \<open>A \<^verbatim>\<open>VariableDeclarator\<close>: \<^verbatim>\<open>init\<close> is \<^verbatim>\<open>null\<close> when there is no initializer.\<close>

record declarator =
  init :: "expr option"
  drange :: "nat \<times> nat"

text \<open>
  A \<^verbatim>\<open>VariableDeclaration\<close> node. The source compares nodes by reference
  (\<^verbatim>\<open>indexOf\<close>, \<^verbatim>\<open>===\<close>); \<open>nid\<close> stands for the reference.
\<close>

record variable_declaration =
  nid :: nat
  kind :: kind
  declarations :: "declarator list"
  nrange :: "nat \<times> nat"

text \<open>
  An element of a \<^verbatim>\<open>body\<close> array: a variable declaration, or a statement of another
  type (its reference, its \<^verbatim>\<open>type\<close>, its \<^verbatim>\<open>range\<close>), which has neither
  \<^verbatim>\<open>kind\<close> nor \<^verbatim>\<open>declarations\<close>.
\<close>

datatype stmt = VariableDeclaration variable_declaration | OtherStatement nat string "nat \<times> nat"

fun stmt_id :: "stmt \<Rightarrow> nat" where
  "stmt_id (VariableDeclaration d) = nid d"
| "stmt_id (OtherStatement i t r) = i"

fun stmt_range :: "stmt \<Rightarrow> nat \<times> nat" where
  "stmt_range (VariableDeclaration d) = nrange d"
| "stmt_range (OtherStatement i t r) = r"

fun stmt_kind :: "stmt \<Rightarrow> kind option" where
  "stmt_kind (VariableDeclaration d) = Some (kind d)"
| "stmt_kind (OtherStatement i t r) = None"

text \<open>\<^verbatim>\<open>previousNode.declarations || []\<close>\<close>

fun stmt_declarations :: "stmt \<Rightarrow> declarator list" where
  "stmt_declarations (VariableDeclaration d) = declarations d"
| "stmt_declarations (OtherStatement i t r) = []"

fun is_VariableDeclaration :: "stmt \<Rightarrow> bool" where
  "is_VariableDeclaration (VariableDeclaration d) = True"
| "is_VariableDeclaration (OtherStatement i t r) = False"

text \<open>
  \<^verbatim>\<open>parent.body\<close>: absent (an export declaration, an \<^verbatim>\<open>if\<close>, a switch case), a single
  node (the body of a loop), or an array of statements.
\<close>

datatype body_field = BodyUndefined | BodyNode nat | BodyArray "stmt list"

text \<open>
  What the rule reads of \<^verbatim>\<open>node.parent\<close>: its type, its body, the references held in
  \<^verbatim>\<open>parent.left\<close> and \<^verbatim>\<open>parent.init\<close>, and the type of its own parent.
\<close>

record parent_node =
  ptype :: string
  body :: body_field
  parent_left :: "nat option"
  parent_init :: "nat option"
  grandparent_type :: string

subsection \<open>Scope records and the two stacks\<close>

text \<open>
  A scope record (source lines 228, 229, 239). \<^verbatim>\<open>required\<close> is absent from a fresh
  record and only ever tested for truth, so absent is \<open>False\<close>.
\<close>

record scope =
  initialized :: bool
  uninitialized :: bool
  required :: bool

record block_scope =
  let_scope :: scope
  const_scope :: scope

text \<open>The arrays \<^verbatim>\<open>functionStack\<close> and \<^verbatim>\<open>blockStack\<close>; the top is the last element.\<close>

record rule_state =
  functionStack :: "scope list"
  blockStack :: "block_scope list"

datatype error = TypeError

definition fresh_scope :: scope where
  "fresh_scope = \<lparr> initialized = False, uninitialized = False, required = False \<rparr>"

definition fresh_block :: block_scope where
  "fresh_block = \<lparr> let_scope = fresh_scope, const_scope = fresh_scope \<rparr>"

definition startBlock :: "rule_state \<Rightarrow> rule_state" where
  "startBlock st = st\<lparr> blockStack := blockStack st @ [fresh_block] \<rparr>"

definition startFunction :: "rule_state \<Rightarrow> rule_state" where
  "startFunction st = startBlock (st\<lparr> functionStack := functionStack st @ [fresh_scope] \<rparr>)"

text \<open>\<^verbatim>\<open>Array.prototype.pop\<close> leaves an empty array empty, as \<open>butlast\<close> does.\<close>

definition endBlock :: "rule_state \<Rightarrow> rule_state" where
  "endBlock st = st\<lparr> blockStack := butlast (blockStack st) \<rparr>"

definition endFunction :: "rule_state \<Rightarrow> rule_state" where
  "endFunction st = endBlock (st\<lparr> functionStack := butlast (functionStack st) \<rparr>)"

text \<open>
  Source lines 303 to 314. \<open>None\<close> is the result \<^verbatim>\<open>undefined\<close> (an empty function
  stack, a kind other than the three) and also the \<^verbatim>\<open>TypeError\<close> of
  \<^verbatim>\<open>blockStack.at(-1).let\<close> on an empty block stack: the only caller dereferences the
  result on every path, so both end in the same error.
\<close>

fun getCurrentScope :: "kind \<Rightarrow> rule_state \<Rightarrow> scope option" where
  "getCurrentScope Var st =
     (if functionStack st = [] then None else Some (last (functionStack st)))"
| "getCurrentScope Let st =
     (if blockStack st = [] then None else Some (let_scope (last (blockStack st))))"
| "getCurrentScope Const st =
     (if blockStack st = [] then None else Some (const_scope (last (blockStack st))))"
| "getCurrentScope Using st = None"
| "getCurrentScope AwaitUsing st = None"

text \<open>
  The record returned by \<^verbatim>\<open>getCurrentScope\<close> is the object on the stack, so an
  assignment to its fields is an update of the stack top.
\<close>

fun setCurrentScope :: "kind \<Rightarrow> scope \<Rightarrow> rule_state \<Rightarrow> rule_state" where
  "setCurrentScope Var sc st =
     st\<lparr> functionStack := butlast (functionStack st) @ [sc] \<rparr>"
| "setCurrentScope Let sc st =
     st\<lparr> blockStack := butlast (blockStack st) @ [(last (blockStack st))\<lparr> let_scope := sc \<rparr>] \<rparr>"
| "setCurrentScope Const sc st =
     st\<lparr> blockStack := butlast (blockStack st) @ [(last (blockStack st))\<lparr> const_scope := sc \<rparr>] \<rparr>"
| "setCurrentScope Using sc st = st"
| "setCurrentScope AwaitUsing sc st = st"

section \<open>Classification of a statement\<close>

text \<open>Source lines 268 to 270.\<close>

definition isRequire :: "declarator \<Rightarrow> bool" where
  "isRequire decl =
     (case init decl of
        None \<Rightarrow> False
      | Some (CallExpression callee) \<Rightarrow> callee_name callee = Some ''require''
      | Some _ \<Rightarrow> False)"

record counts =
  cnt_uninitialized :: nat
  cnt_initialized :: nat

text \<open>Source lines 322 to 333: the body of the loop, then the loop.\<close>

definition count_one :: "declarator \<Rightarrow> counts \<Rightarrow> counts" where
  "count_one d c =
     (if init d = None then c\<lparr> cnt_uninitialized := cnt_uninitialized c + 1 \<rparr>
      else c\<lparr> cnt_initialized := cnt_initialized c + 1 \<rparr>)"

fun count_loop :: "declarator list \<Rightarrow> counts \<Rightarrow> counts" where
  "count_loop [] c = c"
| "count_loop (d # ds) c = count_loop ds (count_one d c)"

definition countDeclarations :: "declarator list \<Rightarrow> counts" where
  "countDeclarations ds = count_loop ds \<lparr> cnt_uninitialized = 0, cnt_initialized = 0 \<rparr>"

text \<open>Source lines 280 to 296: the body of the loop, then the loop.\<close>

definition record_one :: "options \<Rightarrow> kind \<Rightarrow> declarator \<Rightarrow> scope \<Rightarrow> scope" where
  "record_one opts statementType d currentScope =
     (if init d = None then
        (case options_of opts statementType of
           None \<Rightarrow> currentScope
         | Some ko \<Rightarrow>
             if opt_uninitialized ko = Some MODE_ALWAYS
             then currentScope\<lparr> uninitialized := True \<rparr> else currentScope)
      else
        (case options_of opts statementType of
           None \<Rightarrow> currentScope
         | Some ko \<Rightarrow>
             if opt_initialized ko = Some MODE_ALWAYS then
               (if separateRequires opts \<and> isRequire d
                then currentScope\<lparr> required := True \<rparr>
                else currentScope\<lparr> initialized := True \<rparr>)
             else currentScope))"

fun recordTypes :: "options \<Rightarrow> kind \<Rightarrow> declarator list \<Rightarrow> scope \<Rightarrow> scope" where
  "recordTypes opts statementType [] currentScope = currentScope"
| "recordTypes opts statementType (d # ds) currentScope =
     recordTypes opts statementType ds (record_one opts statementType d currentScope)"

text \<open>\<^verbatim>\<open>options[statementType] || {}\<close>\<close>

definition currentOptions_of :: "options \<Rightarrow> kind \<Rightarrow> kind_options" where
  "currentOptions_of opts statementType =
     (case options_of opts statementType of
        None \<Rightarrow> \<lparr> opt_uninitialized = None, opt_initialized = None \<rparr>
      | Some ko \<Rightarrow> ko)"

text \<open>
  Source lines 342 to 374. The result is the returned boolean and the state after the
  call. Without a current scope record every path reaches a property read of
  \<^verbatim>\<open>undefined\<close> (at the latest \<^verbatim>\<open>currentScope.required\<close>), which throws.
\<close>

definition hasOnlyOneStatement ::
  "options \<Rightarrow> kind \<Rightarrow> declarator list \<Rightarrow> rule_state \<Rightarrow> error + (bool \<times> rule_state)" where
  "hasOnlyOneStatement opts statementType decls st =
     (let declarationCounts = countDeclarations decls;
          currentOptions = currentOptions_of opts statementType;
          hasRequires = list_ex isRequire decls
      in case getCurrentScope statementType st of
           None \<Rightarrow> Inl TypeError
         | Some currentScope \<Rightarrow>
             if opt_uninitialized currentOptions = Some MODE_ALWAYS
                \<and> opt_initialized currentOptions = Some MODE_ALWAYS
                \<and> (uninitialized currentScope \<or> initialized currentScope)
                \<and> \<not> hasRequires
             then Inr (False, st)
             else if cnt_uninitialized declarationCounts > 0
                \<and> opt_uninitialized currentOptions = Some MODE_ALWAYS
                \<and> uninitialized currentScope
             then Inr (False, st)
             else if cnt_initialized declarationCounts > 0
                \<and> opt_initialized currentOptions = Some MODE_ALWAYS
                \<and> initialized currentScope
                \<and> \<not> hasRequires
             then Inr (False, st)
             else if required currentScope \<and> hasRequires
             then Inr (False, st)
             else Inr (True,
                    setCurrentScope statementType
                      (recordTypes opts statementType decls currentScope) st))"

section \<open>Source text, tokens and edits\<close>

text \<open>
  A token or comment as the rule reads it: \<^verbatim>\<open>type\<close>, \<^verbatim>\<open>value\<close>, \<^verbatim>\<open>range\<close>,
  \<^verbatim>\<open>loc.start.line\<close> and \<^verbatim>\<open>loc.end.line\<close>. A comment has type \<^verbatim>\<open>Line\<close> or
  \<^verbatim>\<open>Block\<close> (source lines 449, 450, 454).
\<close>

record token =
  ttype :: string
  tvalue :: string
  trange :: "nat \<times> nat"
  loc_start_line :: nat
  loc_end_line :: nat

text \<open>
  \<^verbatim>\<open>context.sourceCode\<close>: the text and its tokens and comments in source order. The
  tokenizer belongs to the host, so the token list is an input.
\<close>

record sourceCode =
  src_text :: string
  tokensAndComments :: "token list"

definition isComment :: "token \<Rightarrow> bool" where
  "isComment t = (ttype t = ''Line'' \<or> ttype t = ''Block'')"

text \<open>
  Modelled from the spec: the host's accessor \<^verbatim>\<open>sourceCode.getTokenAfter\<close> is not
  under src/. Section 6 of the spec: the token immediately after a given node or token,
  optionally including comments. It is the first token that starts at or after the end
  of the given range; \<open>None\<close> is \<^verbatim>\<open>null\<close>.
\<close>

definition getTokenAfter :: "sourceCode \<Rightarrow> nat \<times> nat \<Rightarrow> bool \<Rightarrow> token option" where
  "getTokenAfter src r includeComments =
     find (\<lambda>t. snd r \<le> fst (trange t) \<and> (includeComments \<or> \<not> isComment t))
       (tokensAndComments src)"

text \<open>
  Modelled from the spec: the host's accessor \<^verbatim>\<open>sourceCode.getTokenBefore\<close> is not
  under src/. Section 6 of the spec: the token immediately before a given node or token.
  It is the last token, comments skipped, that ends at or before the start of the given
  range.
\<close>

definition getTokenBefore :: "sourceCode \<Rightarrow> nat \<times> nat \<Rightarrow> token option" where
  "getTokenBefore src r =
     find (\<lambda>t. snd (trange t) \<le> fst r \<and> \<not> isComment t) (rev (tokensAndComments src))"

text \<open>\<^verbatim>\<open>String.prototype.slice\<close> on two indices within the text.\<close>

definition slice :: "string \<Rightarrow> nat \<Rightarrow> nat \<Rightarrow> string" where
  "slice s a b = take (b - a) (drop a s)"

text \<open>
  Modelled from the spec: the host's \<^verbatim>\<open>sourceCode.getText\<close> is not under src/.
  Section 6 of the spec: the raw text slice by range.
\<close>

definition getText :: "sourceCode \<Rightarrow> token \<Rightarrow> string" where
  "getText src t = slice (src_text src) (fst (trange t)) (snd (trange t))"

text \<open>A range replacement, the value a fixer method returns.\<close>

record edit =
  erange :: "nat \<times> nat"
  etext :: string

text \<open>
  Modelled from the spec: the methods of the host's text-editing helper are not under
  src/. Section 6 of the spec: a fix is a function from the helper to range
  replacements. An insertion after a token replaces the empty range at its end.
\<close>

definition replaceTextRange :: "nat \<times> nat \<Rightarrow> string \<Rightarrow> edit" where
  "replaceTextRange r s = \<lparr> erange = r, etext = s \<rparr>"

definition replaceText :: "token \<Rightarrow> string \<Rightarrow> edit" where
  "replaceText t s = replaceTextRange (trange t) s"

definition insertTextAfter :: "token \<Rightarrow> string \<Rightarrow> edit" where
  "insertTextAfter t s = replaceTextRange (snd (trange t), snd (trange t)) s"

text \<open>
  Modelled from the spec: applying edits is the host's work and not under src/. The
  edits of one fix do not overlap and come in source order; each replaces its range of
  the original text. They are applied from the last to the first, so that the ranges of
  the earlier ones still hold.
\<close>

definition apply_edit :: "edit \<Rightarrow> string \<Rightarrow> string" where
  "apply_edit e s = take (fst (erange e)) s @ etext e @ drop (snd (erange e)) s"

definition apply_edits :: "edit list \<Rightarrow> string \<Rightarrow> string" where
  "apply_edits es s = foldr apply_edit es s"

section \<open>Fix synthesizer\<close>

text \<open>
  A fix closure is the data it captured. The join closure holds \<^verbatim>\<open>declaration\<close>
  (the first declarator) and \<^verbatim>\<open>previousNode\<close>; the split closure holds the
  declaration statement, whose \<^verbatim>\<open>parent\<close> it reads.
\<close>

datatype fix_closure =
    JoinClosure declarator "stmt option"
  | SplitClosure variable_declaration parent_node

text \<open>\<^verbatim>\<open>Array.prototype.findIndex\<close>: \<open>-1\<close> when no element passes.\<close>

fun findIndex :: "('a \<Rightarrow> bool) \<Rightarrow> 'a list \<Rightarrow> int" where
  "findIndex P [] = - 1"
| "findIndex P (x # xs) =
     (if P x then 0 else (let i = findIndex P xs in if i < 0 then - 1 else i + 1))"

text \<open>\<^verbatim>\<open>body[i]\<close>: \<^verbatim>\<open>undefined\<close> for an index outside the array.\<close>

definition array_at :: "'a list \<Rightarrow> int \<Rightarrow> 'a option" where
  "array_at xs i = (if 0 \<le> i \<and> i < int (length xs) then Some (xs ! nat i) else None)"

text \<open>
  Source lines 381 to 386, the part of \<^verbatim>\<open>joinDeclarations\<close> that runs at report
  time. The source receives the declarators and walks \<^verbatim>\<open>declarations[0].parent\<close> and
  \<^verbatim>\<open>.parent.parent\<close>; here the statement and its parent are the arguments. With no
  declarator, \<^verbatim>\<open>declarations[0].parent\<close> throws.
\<close>

definition joinDeclarations :: "variable_declaration \<Rightarrow> parent_node \<Rightarrow> error + fix_closure" where
  "joinDeclarations node parent =
     (case declarations node of
        [] \<Rightarrow> Inl TypeError
      | declaration # rest \<Rightarrow>
          let body_array = (case body parent of BodyArray b \<Rightarrow> b | _ \<Rightarrow> []);
              currentIndex = findIndex (\<lambda>n. fst (stmt_range n) = fst (nrange node)) body_array;
              previousNode = array_at body_array (currentIndex - 1)
          in Inr (JoinClosure declaration previousNode))"

text \<open>
  The host evaluates a fix closure after the visit that made it. The closure was created
  inside \<^verbatim>\<open>create\<close>, so \<^verbatim>\<open>functionStack\<close> and \<^verbatim>\<open>blockStack\<close> are in the scope
  of its body: each function below that embeds a part of a closure body takes the state
  of the two stacks and returns the state it leaves, also when it throws. The host's
  accessors and fixer methods belong to another module and cannot reach the two arrays.
\<close>

text \<open>
  Source lines 387 to 402, the join closure. \<^verbatim>\<open>getTokenBefore(type)\<close> reads the
  range of its argument and \<^verbatim>\<open>prevSemi.value\<close> reads \<^verbatim>\<open>prevSemi\<close>, so a missing
  token throws there.
\<close>

definition join_fix ::
  "sourceCode \<Rightarrow> declarator \<Rightarrow> stmt option \<Rightarrow> rule_state
     \<Rightarrow> (error + edit list) \<times> rule_state" where
  "join_fix src declaration previousNode st =
     (case getTokenBefore src (drange declaration) of
        None \<Rightarrow> (Inl TypeError, st)
      | Some type_token \<Rightarrow>
          let prevSemi = getTokenBefore src (trange type_token) in
          if (case previousNode of
                None \<Rightarrow> False
              | Some p \<Rightarrow>
                  (case stmt_kind p of
                     None \<Rightarrow> False
                   | Some k \<Rightarrow> kind_text k = getText src type_token))
          then
            (case prevSemi of
               None \<Rightarrow> (Inl TypeError, st)
             | Some semi \<Rightarrow>
                 (Inr ((if tvalue semi = '';'' then replaceText semi '',''
                        else insertTextAfter semi '','')
                       # [replaceText type_token '''']), st))
          else (Inr [], st))"

text \<open>Source lines 110 to 112, on the \<^verbatim>\<open>parent.type\<close> of the given node.\<close>

definition isInStatementList :: "string list \<Rightarrow> string \<Rightarrow> bool" where
  "isInStatementList STATEMENT_LIST_PARENTS node_parent_type =
     List.member STATEMENT_LIST_PARENTS node_parent_type"

text \<open>
  Source lines 454 to 456: the loop over contiguous comments. The result \<open>None\<close>
  means that the loop does not return; a missing next token throws. Each round starts
  in the state the round before has left.
\<close>

partial_function (option) lastComment_loop ::
  "sourceCode \<Rightarrow> token \<Rightarrow> rule_state \<Rightarrow> ((error + token) \<times> rule_state) option" where
  "lastComment_loop src lastComment st =
     (if ttype lastComment = ''Line'' \<or> ttype lastComment = ''Block'' then
        (case getTokenAfter src (trange lastComment) True of
           None \<Rightarrow> Some (Inl TypeError, st)
         | Some next_token \<Rightarrow> lastComment_loop src next_token st)
      else Some (Inr lastComment, st))"

declare lastComment_loop.simps [code]

text \<open>Source lines 418 to 465: the function mapped over the declarators.\<close>

definition split_one ::
  "sourceCode \<Rightarrow> variable_declaration \<Rightarrow> parent_node \<Rightarrow> declarator \<Rightarrow> rule_state
     \<Rightarrow> ((error + edit option) \<times> rule_state) option" where
  "split_one src declaration parent d st =
     (case getTokenAfter src (drange d) False of
        None \<Rightarrow> Some (Inr None, st)
      | Some tokenAfterDeclarator \<Rightarrow>
          let afterComma = getTokenAfter src (trange tokenAfterDeclarator) True in
          if tvalue tokenAfterDeclarator \<noteq> '','' then Some (Inr None, st)
          else
            let exportPlacement =
                  (if ptype parent = ''ExportNamedDeclaration'' then ''export '' else '''')
            in case afterComma of
                 None \<Rightarrow> Some (Inl TypeError, st)
               | Some ac \<Rightarrow>
                   if fst (trange ac) = snd (trange tokenAfterDeclarator) then
                     Some (Inr (Some (replaceText tokenAfterDeclarator
                       (''; '' @ exportPlacement @ kind_text (kind declaration) @ '' ''))), st)
                   else if loc_start_line ac > loc_end_line tokenAfterDeclarator
                           \<or> ttype ac = ''Line'' \<or> ttype ac = ''Block'' then
                     (case lastComment_loop src ac st of
                        None \<Rightarrow> None
                      | Some (Inl e, st1) \<Rightarrow> Some (Inl e, st1)
                      | Some (Inr lastComment, st1) \<Rightarrow>
                          Some (Inr (Some (replaceTextRange
                            (fst (trange tokenAfterDeclarator), fst (trange lastComment))
                            ('';'' @ slice (src_text src) (snd (trange tokenAfterDeclarator))
                                      (fst (trange lastComment))
                               @ exportPlacement @ kind_text (kind declaration) @ '' ''))),
                            st1))
                   else
                     Some (Inr (Some (replaceText tokenAfterDeclarator
                       (''; '' @ exportPlacement @ kind_text (kind declaration)))), st))"

text \<open>
  \<^verbatim>\<open>declaration.declarations.map(...)\<close>: the declarators in order, each call in the
  state the call before has left, stopping at the first one that throws or does not
  return.
\<close>

fun split_map ::
  "sourceCode \<Rightarrow> variable_declaration \<Rightarrow> parent_node \<Rightarrow> declarator list \<Rightarrow> rule_state
     \<Rightarrow> ((error + edit option list) \<times> rule_state) option" where
  "split_map src declaration parent [] st = Some (Inr [], st)"
| "split_map src declaration parent (d # ds) st =
     (case split_one src declaration parent d st of
        None \<Rightarrow> None
      | Some (Inl e, st1) \<Rightarrow> Some (Inl e, st1)
      | Some (Inr x, st1) \<Rightarrow>
          (case split_map src declaration parent ds st1 of
             None \<Rightarrow> None
           | Some (Inl e, st2) \<Rightarrow> Some (Inl e, st2)
           | Some (Inr xs, st2) \<Rightarrow> Some (Inr (x # xs), st2)))"

text \<open>The split closure: the map, then \<^verbatim>\<open>.filter(x => x)\<close>.\<close>

definition split_fix ::
  "sourceCode \<Rightarrow> variable_declaration \<Rightarrow> parent_node \<Rightarrow> rule_state
     \<Rightarrow> ((error + edit list) \<times> rule_state) option" where
  "split_fix src declaration parent st =
     (case split_map src declaration parent (declarations declaration) st of
        None \<Rightarrow> None
      | Some (Inl e, st1) \<Rightarrow> Some (Inl e, st1)
      | Some (Inr xs, st1) \<Rightarrow> Some (Inr (List.map_filter id xs), st1))"

text \<open>
  Source lines 410 to 418, the part of \<^verbatim>\<open>splitDeclarations\<close> that runs at report
  time; \<open>None\<close> is \<^verbatim>\<open>null\<close>. The set \<^verbatim>\<open>astUtils.STATEMENT_LIST_PARENTS\<close> is not
  under src/ and is a parameter.
\<close>

definition splitDeclarations ::
  "string list \<Rightarrow> variable_declaration \<Rightarrow> parent_node \<Rightarrow> fix_closure option" where
  "splitDeclarations STATEMENT_LIST_PARENTS declaration parent =
     (if \<not> isInStatementList STATEMENT_LIST_PARENTS
            (if ptype parent = ''ExportNamedDeclaration'' then grandparent_type parent
             else ptype parent)
      then None
      else Some (SplitClosure declaration parent))"

text \<open>
  The evaluation of a closure by the host, in a state of the two stacks: the body of
  the closure, run from that state. The result is what the body returns or throws and
  the state it leaves; \<open>None\<close> means no return.
\<close>

fun run_fix ::
  "sourceCode \<Rightarrow> fix_closure \<Rightarrow> rule_state \<Rightarrow> ((error + edit list) \<times> rule_state) option" where
  "run_fix src (JoinClosure declaration previousNode) st =
     Some (join_fix src declaration previousNode st)"
| "run_fix src (SplitClosure declaration parent) st = split_fix src declaration parent st"

section \<open>Policy evaluator\<close>

text \<open>The message identifiers of \<^verbatim>\<open>meta.messages\<close> (source lines 172 to 180).\<close>

datatype messageId =
    CombineUninitialized | CombineInitialized | SplitUninitialized | SplitInitialized
  | SplitRequires | Combine | Split

text \<open>
  An argument of \<^verbatim>\<open>context.report\<close>: the message, \<^verbatim>\<open>data.type\<close> when given, and
  the fix; \<open>None\<close> is a report without \<^verbatim>\<open>fix\<close> or with \<^verbatim>\<open>fix: null\<close>. Every
  report of the rule is on the statement under check.
\<close>

record report =
  messageId :: messageId
  data_type :: "kind option"
  rfix :: "fix_closure option"

definition combine_report ::
  "messageId \<Rightarrow> variable_declaration \<Rightarrow> parent_node \<Rightarrow> error + report" where
  "combine_report m node parent =
     (case joinDeclarations node parent of
        Inl e \<Rightarrow> Inl e
      | Inr f \<Rightarrow> Inr \<lparr> messageId = m, data_type = Some (kind node), rfix = Some f \<rparr>)"

definition split_report ::
  "string list \<Rightarrow> messageId \<Rightarrow> variable_declaration \<Rightarrow> parent_node \<Rightarrow> report" where
  "split_report STATEMENT_LIST_PARENTS m node parent =
     \<lparr> messageId = m, data_type = Some (kind node),
       rfix = splitDeclarations STATEMENT_LIST_PARENTS node parent \<rparr>"

text \<open>Source line 484, and line 506 on the declarators of two statements.\<close>

definition mixedRequires :: "declarator list \<Rightarrow> bool" where
  "mixedRequires ds = (list_ex isRequire ds \<and> \<not> list_all isRequire ds)"

text \<open>Source lines 486 to 493.\<close>

definition requires_check :: "options \<Rightarrow> kind_options \<Rightarrow> variable_declaration \<Rightarrow> report list" where
  "requires_check opts ko node =
     (if opt_initialized ko = Some MODE_ALWAYS
         \<and> separateRequires opts \<and> mixedRequires (declarations node)
      then [\<lparr> messageId = SplitRequires, data_type = None, rfix = None \<rparr>]
      else [])"

text \<open>
  Source line 496. \<^verbatim>\<open>parent.body.length > 0\<close> is false for a body that is a single
  node, and \<^verbatim>\<open>indexOf\<close> compares references.
\<close>

definition nodeIndex_of :: "variable_declaration \<Rightarrow> parent_node \<Rightarrow> int" where
  "nodeIndex_of node parent =
     (case body parent of
        BodyUndefined \<Rightarrow> 0
      | BodyNode b \<Rightarrow> 0
      | BodyArray b \<Rightarrow>
          if length b > 0 then
            (let i = findIndex (\<lambda>s. stmt_id s = nid node) b in if i = 0 then 0 else i)
          else 0)"

text \<open>Source lines 498 to 541.\<close>

definition consecutive_check ::
  "kind_options \<Rightarrow> variable_declaration \<Rightarrow> parent_node \<Rightarrow> error + report list" where
  "consecutive_check ko node parent =
     (let declarationCounts = countDeclarations (declarations node);
          nodeIndex = nodeIndex_of node parent
      in if nodeIndex > 0 then
           (case array_at (case body parent of BodyArray b \<Rightarrow> b | _ \<Rightarrow> []) (nodeIndex - 1) of
              None \<Rightarrow> Inl TypeError
            | Some previousNode \<Rightarrow>
                let declarationsWithPrevious =
                      declarations node @ stmt_declarations previousNode
                in if is_VariableDeclaration previousNode
                      \<and> stmt_kind previousNode = Some (kind node)
                      \<and> \<not> mixedRequires declarationsWithPrevious
                   then
                     (let previousDeclCounts = countDeclarations (stmt_declarations previousNode)
                      in if opt_initialized ko = Some MODE_CONSECUTIVE
                            \<and> opt_uninitialized ko = Some MODE_CONSECUTIVE
                         then map_sum id (\<lambda>r. [r]) (combine_report Combine node parent)
                         else if opt_initialized ko = Some MODE_CONSECUTIVE
                            \<and> cnt_initialized declarationCounts > 0
                            \<and> cnt_initialized previousDeclCounts > 0
                         then map_sum id (\<lambda>r. [r]) (combine_report CombineInitialized node parent)
                         else if opt_uninitialized ko = Some MODE_CONSECUTIVE
                            \<and> cnt_uninitialized declarationCounts > 0
                            \<and> cnt_uninitialized previousDeclCounts > 0
                         then map_sum id (\<lambda>r. [r]) (combine_report CombineUninitialized node parent)
                         else Inr [])
                   else Inr [])
         else Inr [])"

text \<open>Source line 566.\<close>

definition isForInOfLeft :: "variable_declaration \<Rightarrow> parent_node \<Rightarrow> bool" where
  "isForInOfLeft node parent =
     (parent_left parent = Some (nid node)
      \<and> (ptype parent = ''ForInStatement'' \<or> ptype parent = ''ForOfStatement''))"

text \<open>
  Source lines 545 to 578: the reports when \<^verbatim>\<open>hasOnlyOneStatement\<close> returned
  false. The boolean of the result tells whether the function returned at line 567.
\<close>

definition always_reports ::
  "kind_options \<Rightarrow> variable_declaration \<Rightarrow> parent_node \<Rightarrow> error + (report list \<times> bool)" where
  "always_reports ko node parent =
     (let declarationCounts = countDeclarations (declarations node)
      in if opt_initialized ko = Some MODE_ALWAYS \<and> opt_uninitialized ko = Some MODE_ALWAYS
         then
           (case combine_report Combine node parent of
              Inl e \<Rightarrow> Inl e
            | Inr r \<Rightarrow> Inr ([r], False))
         else
           (case (if opt_initialized ko = Some MODE_ALWAYS
                     \<and> cnt_initialized declarationCounts > 0
                  then map_sum id (\<lambda>r. [r]) (combine_report CombineInitialized node parent)
                  else Inr []) of
              Inl e \<Rightarrow> Inl e
            | Inr rs \<Rightarrow>
                if opt_uninitialized ko = Some MODE_ALWAYS
                   \<and> cnt_uninitialized declarationCounts > 0
                then
                  (if isForInOfLeft node parent then Inr (rs, True)
                   else
                     (case combine_report CombineUninitialized node parent of
                        Inl e \<Rightarrow> Inl e
                      | Inr r \<Rightarrow> Inr (rs @ [r], False)))
                else Inr (rs, False)))"

text \<open>
  Source lines 544 to 579. The result holds the reports, whether the function returned
  at line 567, and the state after \<^verbatim>\<open>hasOnlyOneStatement\<close>.
\<close>

definition always_check ::
  "options \<Rightarrow> kind_options \<Rightarrow> variable_declaration \<Rightarrow> parent_node \<Rightarrow> rule_state
     \<Rightarrow> error + (report list \<times> bool \<times> rule_state)" where
  "always_check opts ko node parent st =
     (case hasOnlyOneStatement opts (kind node) (declarations node) st of
        Inl e \<Rightarrow> Inl e
      | Inr (only_one, st') \<Rightarrow>
          if only_one then Inr ([], False, st')
          else
            (case always_reports ko node parent of
               Inl e \<Rightarrow> Inl e
             | Inr (rs, returned) \<Rightarrow> Inr (rs, returned, st')))"

text \<open>Source lines 582 to 621.\<close>

definition never_check ::
  "string list \<Rightarrow> kind_options \<Rightarrow> variable_declaration \<Rightarrow> parent_node \<Rightarrow> report list" where
  "never_check STATEMENT_LIST_PARENTS ko node parent =
     (let declarationCounts = countDeclarations (declarations node)
      in if ptype parent \<noteq> ''ForStatement'' \<or> parent_init parent \<noteq> Some (nid node) then
           (let totalDeclarations =
                  cnt_uninitialized declarationCounts + cnt_initialized declarationCounts
            in if totalDeclarations > 1 then
                 (if opt_initialized ko = Some MODE_NEVER
                     \<and> opt_uninitialized ko = Some MODE_NEVER
                  then [split_report STATEMENT_LIST_PARENTS Split node parent]
                  else if opt_initialized ko = Some MODE_NEVER
                     \<and> cnt_initialized declarationCounts > 0
                  then [split_report STATEMENT_LIST_PARENTS SplitInitialized node parent]
                  else if opt_uninitialized ko = Some MODE_NEVER
                     \<and> cnt_uninitialized declarationCounts > 0
                  then [split_report STATEMENT_LIST_PARENTS SplitUninitialized node parent]
                  else [])
               else [])
         else [])"

text \<open>
  Source lines 474 to 622: the four parts in order. The result is the list of reports in
  the order of the calls of \<^verbatim>\<open>context.report\<close>, and the state after the visit.
\<close>

definition checkVariableDeclaration ::
  "string list \<Rightarrow> options \<Rightarrow> variable_declaration \<Rightarrow> parent_node \<Rightarrow> rule_state
     \<Rightarrow> error + (report list \<times> rule_state)" where
  "checkVariableDeclaration STATEMENT_LIST_PARENTS opts node parent st =
     (case options_of opts (kind node) of
        None \<Rightarrow> Inr ([], st)
      | Some ko \<Rightarrow>
          (case consecutive_check ko node parent of
             Inl e \<Rightarrow> Inl e
           | Inr consecutive \<Rightarrow>
               (case always_check opts ko node parent st of
                  Inl e \<Rightarrow> Inl e
                | Inr (always, returned, st') \<Rightarrow>
                    Inr (requires_check opts ko node @ consecutive @ always
                           @ (if returned then []
                              else never_check STATEMENT_LIST_PARENTS ko node parent),
                         st'))))"

section \<open>The visitor\<close>

text \<open>
  Source lines 628 to 652: the hooks of the rule. The five function-like node types
  call \<^verbatim>\<open>startFunction\<close> and \<^verbatim>\<open>endFunction\<close>, the five block-like ones
  \<^verbatim>\<open>startBlock\<close> and \<^verbatim>\<open>endBlock\<close>, and a \<^verbatim>\<open>VariableDeclaration\<close> calls
  \<^verbatim>\<open>checkVariableDeclaration\<close>. An event is one call of a hook by the host.
\<close>

datatype event =
    EnterFunction | ExitFunction | EnterBlock | ExitBlock
  | Visit variable_declaration parent_node

fun handle ::
  "string list \<Rightarrow> options \<Rightarrow> event \<Rightarrow> rule_state \<Rightarrow> error + (report list \<times> rule_state)" where
  "handle STATEMENT_LIST_PARENTS opts EnterFunction st = Inr ([], startFunction st)"
| "handle STATEMENT_LIST_PARENTS opts ExitFunction st = Inr ([], endFunction st)"
| "handle STATEMENT_LIST_PARENTS opts EnterBlock st = Inr ([], startBlock st)"
| "handle STATEMENT_LIST_PARENTS opts ExitBlock st = Inr ([], endBlock st)"
| "handle STATEMENT_LIST_PARENTS opts (Visit node parent) st =
     checkVariableDeclaration STATEMENT_LIST_PARENTS opts node parent st"

text \<open>
  A sequence of hook calls, in order: the reports of all of them and the last state, or
  the error of the first call that throws.
\<close>

fun run ::
  "string list \<Rightarrow> options \<Rightarrow> event list \<Rightarrow> rule_state \<Rightarrow> error + (report list \<times> rule_state)" where
  "run STATEMENT_LIST_PARENTS opts [] st = Inr ([], st)"
| "run STATEMENT_LIST_PARENTS opts (e # es) st =
     (case handle STATEMENT_LIST_PARENTS opts e st of
        Inl x \<Rightarrow> Inl x
      | Inr (rs, st1) \<Rightarrow>
          (case run STATEMENT_LIST_PARENTS opts es st1 of
             Inl x \<Rightarrow> Inl x
           | Inr (rs', st2) \<Rightarrow> Inr (rs @ rs', st2)))"

text \<open>
  The events of a subtree, as the host's traversal calls them: every enter has its
  exit, properly nested, with the visits of declarations anywhere between.
\<close>

inductive balanced :: "event list \<Rightarrow> bool" where
  balanced_Nil: "balanced []"
| balanced_Visit: "balanced [Visit node parent]"
| balanced_function: "balanced es \<Longrightarrow> balanced (EnterFunction # es @ [ExitFunction])"
| balanced_block: "balanced es \<Longrightarrow> balanced (EnterBlock # es @ [ExitBlock])"
| balanced_append: "balanced es \<Longrightarrow> balanced fs \<Longrightarrow> balanced (es @ fs)"

text \<open>An enter or exit event, as opposed to a visit.\<close>

fun is_scope_event :: "event \<Rightarrow> bool" where
  "is_scope_event (Visit node parent) = False"
| "is_scope_event e = True"

text \<open>
  Every \<^verbatim>\<open>VariableDeclaration\<close> of a parsed program has at least one declarator.
\<close>

fun has_declarator :: "event \<Rightarrow> bool" where
  "has_declarator (Visit node parent) = (declarations node \<noteq> [])"
| "has_declarator e = True"

text \<open>
  Two states with stacks of the same heights that agree on everything below the tops.
\<close>

definition same_below :: "rule_state \<Rightarrow> rule_state \<Rightarrow> bool" where
  "same_below st st' =
     (length (functionStack st') = length (functionStack st)
      \<and> length (blockStack st') = length (blockStack st)
      \<and> butlast (functionStack st') = butlast (functionStack st)
      \<and> butlast (blockStack st') = butlast (blockStack st))"

text \<open>The stacks of the second state are at least as high as those of the first.\<close>

definition at_least :: "rule_state \<Rightarrow> rule_state \<Rightarrow> bool" where
  "at_least st st' =
     (length (functionStack st) \<le> length (functionStack st')
      \<and> length (blockStack st) \<le> length (blockStack st'))"

section \<open>Reading the diagnostics\<close>

text \<open>
  The two families of section 4.3 of the spec. The combine family is what the
  consecutive check and the scope-wide check report, the split family what the
  never check reports; \<open>SplitRequires\<close> belongs to neither.
\<close>

fun is_combine :: "messageId \<Rightarrow> bool" where
  "is_combine Combine = True"
| "is_combine CombineInitialized = True"
| "is_combine CombineUninitialized = True"
| "is_combine m = False"

fun is_split :: "messageId \<Rightarrow> bool" where
  "is_split Split = True"
| "is_split SplitInitialized = True"
| "is_split SplitUninitialized = True"
| "is_split m = False"

text \<open>The messages of a visit that returned, in report order.\<close>

definition messages :: "report list \<Rightarrow> messageId list" where
  "messages rs = map messageId rs"

text \<open>The messages of a visit, \<open>None\<close> when the visit threw.\<close>

definition visit_messages :: "error + (report list \<times> rule_state) \<Rightarrow> messageId list option" where
  "visit_messages result = (case result of Inl e \<Rightarrow> None | Inr (rs, st) \<Rightarrow> Some (messages rs))"


section \<open>Example programs\<close>

text \<open>
  Modelled from the spec: \<^verbatim>\<open>astUtils.STATEMENT_LIST_PARENTS\<close> is not under src/.
  Section 4.4 of the spec speaks of a syntactic statement list; these are the node types
  whose children form one. Only the examples use this value: the theorems hold for
  every list.
\<close>

definition statement_list_parents :: "string list" where
  "statement_list_parents = [''Program'', ''BlockStatement'', ''StaticBlock'', ''SwitchCase'']"

text \<open>The state on entering \<^verbatim>\<open>Program\<close>, the first event of a traversal.\<close>

definition empty_state :: rule_state where
  "empty_state = \<lparr> functionStack = [], blockStack = [] \<rparr>"

definition program_state :: rule_state where
  "program_state = startFunction empty_state"

definition require_call :: expr where
  "require_call = CallExpression (Identifier ''require'')"

definition program_of :: "stmt list \<Rightarrow> parent_node" where
  "program_of b =
     \<lparr> ptype = ''Program'', body = BodyArray b, parent_left = None, parent_init = None,
       grandparent_type = '''' \<rparr>"

text \<open>\<^verbatim>\<open>var a = require("x"), b = 1;\<close>\<close>

definition mixed_node :: variable_declaration where
  "mixed_node =
     \<lparr> nid = 1, kind = Var,
       declarations = [\<lparr> init = Some require_call, drange = (4, 20) \<rparr>,
                       \<lparr> init = Some OtherExpression, drange = (22, 27) \<rparr>],
       nrange = (0, 28) \<rparr>"

definition mixed_program :: parent_node where
  "mixed_program = program_of [VariableDeclaration mixed_node]"

text \<open>The options \<^verbatim>\<open>{ separateRequires: true }\<close>, with \<^verbatim>\<open>var\<close> set or not.\<close>

definition separate_config :: "mode option \<Rightarrow> config" where
  "separate_config m =
     ModeObject \<lparr> mo_separateRequires = Some True, mo_var = m, mo_let = None,
                  mo_const = None, mo_uninitialized = None, mo_initialized = None \<rparr>"

text \<open>The options \<^verbatim>\<open>{ uninitialized: "always", initialized: "never" }\<close>.\<close>

definition always_never_config :: config where
  "always_never_config =
     ModeObject \<lparr> mo_separateRequires = None, mo_var = None, mo_let = None,
                  mo_const = None, mo_uninitialized = Some MODE_ALWAYS,
                  mo_initialized = Some MODE_NEVER \<rparr>"

text \<open>\<^verbatim>\<open>var a, b;\<close> with its text and tokens.\<close>

definition pair_node :: variable_declaration where
  "pair_node =
     \<lparr> nid = 1, kind = Var,
       declarations = [\<lparr> init = None, drange = (4, 5) \<rparr>,
                       \<lparr> init = None, drange = (7, 8) \<rparr>],
       nrange = (0, 9) \<rparr>"

definition pair_program :: parent_node where
  "pair_program = program_of [VariableDeclaration pair_node]"

definition pair_source :: sourceCode where
  "pair_source =
     \<lparr> src_text = ''var a, b;'',
       tokensAndComments =
         [\<lparr> ttype = ''Keyword'', tvalue = ''var'', trange = (0, 3),
             loc_start_line = 1, loc_end_line = 1 \<rparr>,
          \<lparr> ttype = ''Identifier'', tvalue = ''a'', trange = (4, 5),
             loc_start_line = 1, loc_end_line = 1 \<rparr>,
          \<lparr> ttype = ''Punctuator'', tvalue = '','', trange = (5, 6),
             loc_start_line = 1, loc_end_line = 1 \<rparr>,
          \<lparr> ttype = ''Identifier'', tvalue = ''b'', trange = (7, 8),
             loc_start_line = 1, loc_end_line = 1 \<rparr>,
          \<lparr> ttype = ''Punctuator'', tvalue = '';'', trange = (8, 9),
             loc_start_line = 1, loc_end_line = 1 \<rparr>] \<rparr>"

text \<open>\<^verbatim>\<open>if (foo) var x, y;\<close>: the statement is the body of the \<^verbatim>\<open>if\<close>.\<close>

definition if_body_node :: variable_declaration where
  "if_body_node =
     \<lparr> nid = 2, kind = Var,
       declarations = [\<lparr> init = None, drange = (13, 14) \<rparr>,
                       \<lparr> init = None, drange = (16, 17) \<rparr>],
       nrange = (9, 18) \<rparr>"

definition if_statement :: parent_node where
  "if_statement =
     \<lparr> ptype = ''IfStatement'', body = BodyUndefined, parent_left = None,
       parent_init = None, grandparent_type = ''Program'' \<rparr>"

text \<open>
  \<^verbatim>\<open>var a; var b, c = 1;\<close>: two statements of one program, and the state after the
  visit of the first under \<^verbatim>\<open>{ uninitialized: "always", initialized: "never" }\<close>.
\<close>

definition first_node :: variable_declaration where
  "first_node =
     \<lparr> nid = 1, kind = Var, declarations = [\<lparr> init = None, drange = (4, 5) \<rparr>],
       nrange = (0, 6) \<rparr>"

definition second_node :: variable_declaration where
  "second_node =
     \<lparr> nid = 2, kind = Var,
       declarations = [\<lparr> init = None, drange = (11, 12) \<rparr>,
                       \<lparr> init = Some OtherExpression, drange = (14, 19) \<rparr>],
       nrange = (7, 20) \<rparr>"

definition two_program :: parent_node where
  "two_program = program_of [VariableDeclaration first_node, VariableDeclaration second_node]"

definition uninitialized_seen :: rule_state where
  "uninitialized_seen =
     \<lparr> functionStack = [\<lparr> initialized = False, uninitialized = True, required = False \<rparr>],
       blockStack = [fresh_block] \<rparr>"

text \<open>The state after \<^verbatim>\<open>var a = 1;\<close> under the mode \<^verbatim>\<open>"always"\<close>.\<close>

definition initialized_seen :: rule_state where
  "initialized_seen =
     \<lparr> functionStack = [\<lparr> initialized = True, uninitialized = False, required = False \<rparr>],
       blockStack = [fresh_block] \<rparr>"

text \<open>
  \<^verbatim>\<open>var x; for (var a in obj) {}\<close>: the declaration in the loop head, its parent, and
  the state at its visit (the loop has opened a block).
\<close>

definition for_in_node :: variable_declaration where
  "for_in_node =
     \<lparr> nid = 3, kind = Var, declarations = [\<lparr> init = None, drange = (16, 17) \<rparr>],
       nrange = (12, 17) \<rparr>"

definition for_in_statement :: parent_node where
  "for_in_statement =
     \<lparr> ptype = ''ForInStatement'', body = BodyNode 5, parent_left = Some 3,
       parent_init = None, grandparent_type = ''Program'' \<rparr>"

definition for_in_state :: rule_state where
  "for_in_state = startBlock uninitialized_seen"

text \<open>\<^verbatim>\<open>for (var i = 0, j = 1; i < j; i++) {}\<close>: the declaration is the \<^verbatim>\<open>init\<close>.\<close>

definition for_init_node :: variable_declaration where
  "for_init_node =
     \<lparr> nid = 2, kind = Var,
       declarations = [\<lparr> init = Some OtherExpression, drange = (9, 14) \<rparr>,
                       \<lparr> init = Some OtherExpression, drange = (16, 21) \<rparr>],
       nrange = (5, 21) \<rparr>"

definition for_statement :: parent_node where
  "for_statement =
     \<lparr> ptype = ''ForStatement'', body = BodyNode 9, parent_left = None,
       parent_init = Some 2, grandparent_type = ''Program'' \<rparr>"


text \<open>
  \<^verbatim>\<open>var a; var b;\<close> with its text and tokens: the first statement is
  \<open>first_node\<close>, the second is this one.
\<close>

definition join_node :: variable_declaration where
  "join_node =
     \<lparr> nid = 2, kind = Var, declarations = [\<lparr> init = None, drange = (11, 12) \<rparr>],
       nrange = (7, 13) \<rparr>"

definition join_program :: parent_node where
  "join_program = program_of [VariableDeclaration first_node, VariableDeclaration join_node]"

definition join_source :: sourceCode where
  "join_source =
     \<lparr> src_text = ''var a; var b;'',
       tokensAndComments =
         [\<lparr> ttype = ''Keyword'', tvalue = ''var'', trange = (0, 3),
             loc_start_line = 1, loc_end_line = 1 \<rparr>,
          \<lparr> ttype = ''Identifier'', tvalue = ''a'', trange = (4, 5),
             loc_start_line = 1, loc_end_line = 1 \<rparr>,
          \<lparr> ttype = ''Punctuator'', tvalue = '';'', trange = (5, 6),
             loc_start_line = 1, loc_end_line = 1 \<rparr>,
          \<lparr> ttype = ''Keyword'', tvalue = ''var'', trange = (7, 10),
             loc_start_line = 1, loc_end_line = 1 \<rparr>,
          \<lparr> ttype = ''Identifier'', tvalue = ''b'', trange = (11, 12),
             loc_start_line = 1, loc_end_line = 1 \<rparr>,
          \<lparr> ttype = ''Punctuator'', tvalue = '';'', trange = (12, 13),
             loc_start_line = 1, loc_end_line = 1 \<rparr>] \<rparr>"

section \<open>Counting declarators\<close>

lemma count_loop_uninitialized:
  "cnt_uninitialized (count_loop ds c) = cnt_uninitialized c + length (filter (\<lambda>d. init d = None) ds)"
  by (induction ds arbitrary: c) (simp_all add: count_one_def)

lemma count_loop_initialized:
  "cnt_initialized (count_loop ds c) = cnt_initialized c + length (filter (\<lambda>d. init d \<noteq> None) ds)"
  by (induction ds arbitrary: c) (simp_all add: count_one_def)

lemma cnt_uninitialized_countDeclarations:
  "cnt_uninitialized (countDeclarations ds) = length (filter (\<lambda>d. init d = None) ds)"
  by (simp add: countDeclarations_def count_loop_uninitialized)

lemma cnt_initialized_countDeclarations:
  "cnt_initialized (countDeclarations ds) = length (filter (\<lambda>d. init d \<noteq> None) ds)"
  by (simp add: countDeclarations_def count_loop_initialized)

lemma total_countDeclarations:
  "cnt_uninitialized (countDeclarations ds) + cnt_initialized (countDeclarations ds) = length ds"
  unfolding cnt_uninitialized_countDeclarations cnt_initialized_countDeclarations
  by (induction ds) simp_all

lemma cnt_uninitialized_pos:
  "0 < cnt_uninitialized (countDeclarations ds) \<longleftrightarrow> list_ex (\<lambda>d. init d = None) ds"
  unfolding cnt_uninitialized_countDeclarations
  by (induction ds) auto

lemma cnt_initialized_pos:
  "0 < cnt_initialized (countDeclarations ds) \<longleftrightarrow> list_ex (\<lambda>d. init d \<noteq> None) ds"
  unfolding cnt_initialized_countDeclarations
  by (induction ds) auto

section \<open>The checks return\<close>

lemma findIndex_bounds: "- 1 \<le> findIndex P xs \<and> findIndex P xs < int (length xs)"
  by (induction xs) (auto simp: Let_def)

lemma array_at_findIndex:
  assumes "0 < findIndex P xs"
  shows "\<exists>y. array_at xs (findIndex P xs - 1) = Some y"
  using assms findIndex_bounds [of P xs] by (simp add: array_at_def)

lemma joinDeclarations_returns:
  "declarations node \<noteq> [] \<Longrightarrow> \<exists>f. joinDeclarations node parent = Inr f"
  by (cases "declarations node") (simp_all add: joinDeclarations_def Let_def)

lemma combine_report_returns:
  assumes "declarations node \<noteq> []"
  shows "\<exists>r. combine_report m node parent = Inr r \<and> messageId r = m"
proof -
  from assms obtain f where "joinDeclarations node parent = Inr f"
    using joinDeclarations_returns by blast
  then show ?thesis by (simp add: combine_report_def)
qed

lemma combine_report_messageId:
  "combine_report m node parent = Inr r \<Longrightarrow> messageId r = m"
  by (auto simp: combine_report_def split: sum.splits)

lemma hasOnlyOneStatement_returns:
  assumes "getCurrentScope t st = Some sc"
  shows "\<exists>b st'. hasOnlyOneStatement opts t ds st = Inr (b, st')"
  using assms by (auto simp: hasOnlyOneStatement_def Let_def)

lemma hasOnlyOneStatement_throws:
  assumes "getCurrentScope t st = None"
  shows "hasOnlyOneStatement opts t ds st = Inl TypeError"
  using assms by (simp add: hasOnlyOneStatement_def Let_def)

lemma nodeIndex_of_array:
  assumes "0 < nodeIndex_of node parent"
  shows "\<exists>b. body parent = BodyArray b \<and> nodeIndex_of node parent = findIndex (\<lambda>s. stmt_id s = nid node) b"
  using assms by (auto simp: nodeIndex_of_def Let_def split: body_field.splits if_splits)

lemma consecutive_check_returns:
  assumes "declarations node \<noteq> []"
  shows "\<exists>cs. consecutive_check ko node parent = Inr cs"
proof (cases "0 < nodeIndex_of node parent")
  case False
  then show ?thesis by (simp add: consecutive_check_def Let_def)
next
  case True
  then obtain b where b: "body parent = BodyArray b"
    and i: "nodeIndex_of node parent = findIndex (\<lambda>s. stmt_id s = nid node) b"
    using nodeIndex_of_array by blast
  from True i obtain p where p: "array_at b (nodeIndex_of node parent - 1) = Some p"
    using array_at_findIndex [of "\<lambda>s. stmt_id s = nid node" b] by auto
  obtain r1 r2 r3 where
    "combine_report Combine node parent = Inr r1"
    "combine_report CombineInitialized node parent = Inr r2"
    "combine_report CombineUninitialized node parent = Inr r3"
    using combine_report_returns [OF assms] by metis
  with True b p show ?thesis
    by (simp add: consecutive_check_def Let_def)
qed

lemma consecutive_check_messages:
  assumes "consecutive_check ko node parent = Inr cs"
  shows "cs = [] \<or> (\<exists>r. cs = [r] \<and>
           (messageId r = Combine \<and> opt_initialized ko = Some MODE_CONSECUTIVE
                \<and> opt_uninitialized ko = Some MODE_CONSECUTIVE
            \<or> messageId r = CombineInitialized \<and> opt_initialized ko = Some MODE_CONSECUTIVE
            \<or> messageId r = CombineUninitialized \<and> opt_uninitialized ko = Some MODE_CONSECUTIVE))"
  using assms
  by (auto simp: consecutive_check_def Let_def map_sum_def combine_report_def
           split: if_splits option.splits sum.splits)

section \<open>What each check reports\<close>

lemma requires_check_reports:
  "list_all (\<lambda>r. messageId r = SplitRequires \<and> rfix r = None) (requires_check opts ko node)"
  by (simp add: requires_check_def)

lemma never_check_reports:
  "list_all (\<lambda>r. is_split (messageId r) \<and> rfix r = splitDeclarations slp node parent)
     (never_check slp ko node parent)"
  by (simp add: never_check_def split_report_def Let_def)

lemma consecutive_check_combine:
  assumes "consecutive_check ko node parent = Inr cs"
  shows "list_all (\<lambda>r. is_combine (messageId r)) cs"
  using consecutive_check_messages [OF assms] by auto

lemma always_reports_messages:
  assumes "always_reports ko node parent = Inr (rs, returned)"
  shows "messages rs =
           (if opt_initialized ko = Some MODE_ALWAYS \<and> opt_uninitialized ko = Some MODE_ALWAYS
            then [Combine]
            else (if opt_initialized ko = Some MODE_ALWAYS
                     \<and> 0 < cnt_initialized (countDeclarations (declarations node))
                  then [CombineInitialized] else [])
               @ (if opt_uninitialized ko = Some MODE_ALWAYS
                     \<and> 0 < cnt_uninitialized (countDeclarations (declarations node))
                     \<and> \<not> isForInOfLeft node parent
                  then [CombineUninitialized] else []))
         \<and> returned =
           (\<not> (opt_initialized ko = Some MODE_ALWAYS \<and> opt_uninitialized ko = Some MODE_ALWAYS)
            \<and> opt_uninitialized ko = Some MODE_ALWAYS
            \<and> 0 < cnt_uninitialized (countDeclarations (declarations node))
            \<and> isForInOfLeft node parent)"
proof (cases "opt_initialized ko = Some MODE_ALWAYS \<and> opt_uninitialized ko = Some MODE_ALWAYS")
  case True
  with assms show ?thesis
    by (auto simp: always_reports_def messages_def split: sum.splits
             dest: combine_report_messageId)
next
  case False
  show ?thesis
  proof (cases "combine_report CombineInitialized node parent")
    case (Inl e)
    with assms False show ?thesis
      by (auto simp: always_reports_def messages_def Let_def split: sum.splits if_splits
               dest: combine_report_messageId)
  next
    case (Inr r)
    with assms False combine_report_messageId [OF Inr] show ?thesis
      by (auto simp: always_reports_def messages_def Let_def split: sum.splits if_splits
               dest: combine_report_messageId)
  qed
qed


lemma always_reports_combine:
  assumes "always_reports ko node parent = Inr (rs, returned)"
  shows "list_all (\<lambda>r. is_combine (messageId r)) rs"
proof -
  have "list_all is_combine (messages rs)"
    using always_reports_messages [OF assms] by (simp split: if_splits)
  then show ?thesis by (simp add: messages_def list_all_iff)
qed

lemma always_check_Inr:
  assumes "always_check opts ko node parent st = Inr (rs, returned, st')"
  shows "hasOnlyOneStatement opts (kind node) (declarations node) st = Inr (True, st')
           \<and> rs = [] \<and> \<not> returned
         \<or> hasOnlyOneStatement opts (kind node) (declarations node) st = Inr (False, st')
           \<and> always_reports ko node parent = Inr (rs, returned)"
proof (cases "hasOnlyOneStatement opts (kind node) (declarations node) st")
  case (Inl e)
  with assms show ?thesis by (simp add: always_check_def)
next
  case (Inr p)
  obtain b s where p: "p = (b, s)" by (cases p)
  show ?thesis
  proof (cases b)
    case True
    with assms Inr p show ?thesis by (simp add: always_check_def)
  next
    case False
    with assms Inr p show ?thesis
      by (cases "always_reports ko node parent") (auto simp: always_check_def)
  qed
qed

lemma always_check_combine:
  assumes "always_check opts ko node parent st = Inr (rs, returned, st')"
  shows "list_all (\<lambda>r. is_combine (messageId r)) rs"
  using always_check_Inr [OF assms] always_reports_combine by auto

lemma checkVariableDeclaration_parts:
  assumes "checkVariableDeclaration slp opts node parent st = Inr (rs, st')"
    and "options_of opts (kind node) = Some ko"
  shows "\<exists>cs as returned.
           consecutive_check ko node parent = Inr cs
           \<and> always_check opts ko node parent st = Inr (as, returned, st')
           \<and> rs = requires_check opts ko node @ cs @ as
                  @ (if returned then [] else never_check slp ko node parent)"
proof (cases "consecutive_check ko node parent")
  case (Inl e)
  with assms show ?thesis by (simp add: checkVariableDeclaration_def)
next
  case cs: (Inr cs)
  show ?thesis
  proof (cases "always_check opts ko node parent st")
    case (Inl e)
    with assms cs show ?thesis by (simp add: checkVariableDeclaration_def)
  next
    case (Inr p)
    obtain as returned s where "p = (as, returned, s)" by (cases p)
    with assms cs Inr show ?thesis by (simp add: checkVariableDeclaration_def)
  qed
qed

lemma is_split_not_combine: "is_combine m \<Longrightarrow> \<not> is_split m"
  by (cases m) simp_all

section \<open>The scope record under \<open>hasOnlyOneStatement\<close>\<close>

lemma hasOnlyOneStatement_Some:
  assumes "getCurrentScope t st = Some sc"
  shows "hasOnlyOneStatement opts t ds st =
     (if opt_uninitialized (currentOptions_of opts t) = Some MODE_ALWAYS
         \<and> opt_initialized (currentOptions_of opts t) = Some MODE_ALWAYS
         \<and> (uninitialized sc \<or> initialized sc) \<and> \<not> list_ex isRequire ds
         \<or> list_ex (\<lambda>d. init d = None) ds
           \<and> opt_uninitialized (currentOptions_of opts t) = Some MODE_ALWAYS \<and> uninitialized sc
         \<or> list_ex (\<lambda>d. init d \<noteq> None) ds
           \<and> opt_initialized (currentOptions_of opts t) = Some MODE_ALWAYS \<and> initialized sc
           \<and> \<not> list_ex isRequire ds
         \<or> required sc \<and> list_ex isRequire ds
      then Inr (False, st)
      else Inr (True, setCurrentScope t (recordTypes opts t ds sc) st))"
  using assms
  unfolding hasOnlyOneStatement_def Let_def cnt_uninitialized_pos cnt_initialized_pos
  by auto

lemma getCurrentScope_setCurrentScope:
  assumes "getCurrentScope t st = Some sc"
  shows "getCurrentScope t (setCurrentScope t sc' st) = Some sc'"
  using assms by (cases t) (simp_all split: if_splits)

lemma record_one_flags:
  assumes "initialized sc \<or> uninitialized sc \<or> required sc"
  shows "initialized (record_one opts t d sc) \<or> uninitialized (record_one opts t d sc)
         \<or> required (record_one opts t d sc)"
  using assms by (auto simp: record_one_def split: option.splits)

lemma recordTypes_flags:
  assumes "initialized sc \<or> uninitialized sc \<or> required sc"
  shows "initialized (recordTypes opts t ds sc) \<or> uninitialized (recordTypes opts t ds sc)
         \<or> required (recordTypes opts t ds sc)"
  using assms
proof (induction ds arbitrary: sc)
  case Nil
  then show ?case by simp
next
  case (Cons d ds)
  from Cons.IH [OF record_one_flags [OF Cons.prems]] show ?case by simp
qed

lemma currentOptions_of_Some:
  assumes "opt_initialized (currentOptions_of opts t) = Some m"
  shows "options_of opts t = Some (currentOptions_of opts t)"
  using assms by (cases "options_of opts t") (simp_all add: currentOptions_of_def)

lemma record_one_always:
  assumes "opt_initialized (currentOptions_of opts t) = Some MODE_ALWAYS"
    and "opt_uninitialized (currentOptions_of opts t) = Some MODE_ALWAYS"
  shows "initialized (record_one opts t d sc) \<or> uninitialized (record_one opts t d sc)
         \<or> required (record_one opts t d sc)"
  using assms currentOptions_of_Some [OF assms(1)]
  by (auto simp: record_one_def)

lemma recordTypes_always:
  assumes "opt_initialized (currentOptions_of opts t) = Some MODE_ALWAYS"
    and "opt_uninitialized (currentOptions_of opts t) = Some MODE_ALWAYS"
    and "ds \<noteq> []"
  shows "recordTypes opts t ds sc \<noteq> fresh_scope"
proof -
  from assms(3) obtain d ds' where ds: "ds = d # ds'" by (cases ds) auto
  have "initialized (recordTypes opts t ds sc) \<or> uninitialized (recordTypes opts t ds sc)
         \<or> required (recordTypes opts t ds sc)"
    unfolding ds using recordTypes_flags [OF record_one_always [OF assms(1,2)]] by simp
  then show ?thesis by (auto simp: fresh_scope_def)
qed

lemma hasOnlyOneStatement_False:
  assumes "hasOnlyOneStatement opts t ds st = Inr (False, st')"
  shows "st' = st"
  using assms
  by (cases "getCurrentScope t st")
     (auto simp: hasOnlyOneStatement_throws hasOnlyOneStatement_Some split: if_splits)

lemma hasOnlyOneStatement_True:
  assumes "hasOnlyOneStatement opts t ds st = Inr (True, st')"
  shows "\<exists>sc. getCurrentScope t st = Some sc
              \<and> st' = setCurrentScope t (recordTypes opts t ds sc) st"
proof -
  from assms obtain sc where sc: "getCurrentScope t st = Some sc"
    by (cases "getCurrentScope t st") (auto simp: hasOnlyOneStatement_throws)
  from assms have "st' = setCurrentScope t (recordTypes opts t ds sc) st"
    unfolding hasOnlyOneStatement_Some [OF sc] by (simp split: if_splits)
  with sc show ?thesis by simp
qed

section \<open>A visit returns\<close>

lemma always_reports_returns:
  assumes "declarations node \<noteq> []"
  shows "\<exists>rs returned. always_reports ko node parent = Inr (rs, returned)"
proof -
  obtain r1 r2 r3 where
    "combine_report Combine node parent = Inr r1"
    "combine_report CombineInitialized node parent = Inr r2"
    "combine_report CombineUninitialized node parent = Inr r3"
    using combine_report_returns [OF assms] by metis
  then show ?thesis by (auto simp: always_reports_def Let_def)
qed

lemma always_check_returns:
  assumes "getCurrentScope (kind node) st = Some sc" and "declarations node \<noteq> []"
  shows "\<exists>rs returned st'. always_check opts ko node parent st = Inr (rs, returned, st')"
proof -
  obtain b st' where h: "hasOnlyOneStatement opts (kind node) (declarations node) st = Inr (b, st')"
    using hasOnlyOneStatement_returns [OF assms(1)] by blast
  obtain rs returned where "always_reports ko node parent = Inr (rs, returned)"
    using always_reports_returns [OF assms(2)] by blast
  with h show ?thesis by (auto simp: always_check_def)
qed

lemma checkVariableDeclaration_returns:
  assumes "getCurrentScope (kind node) st = Some sc" and "declarations node \<noteq> []"
    and "options_of opts (kind node) = Some ko"
  shows "\<exists>cs as returned st'.
           consecutive_check ko node parent = Inr cs
           \<and> always_check opts ko node parent st = Inr (as, returned, st')
           \<and> checkVariableDeclaration slp opts node parent st
               = Inr (requires_check opts ko node @ cs @ as
                       @ (if returned then [] else never_check slp ko node parent), st')"
proof -
  obtain cs where cs: "consecutive_check ko node parent = Inr cs"
    using consecutive_check_returns [OF assms(2)] by blast
  obtain as returned st' where "always_check opts ko node parent st = Inr (as, returned, st')"
    using always_check_returns [OF assms(1,2)] by blast
  with cs assms(3) show ?thesis by (simp add: checkVariableDeclaration_def)
qed

lemma never_check_messages:
  "messages (never_check slp ko node parent) =
     (if ptype parent = ''ForStatement'' \<and> parent_init parent = Some (nid node) then []
      else if 1 < length (declarations node) then
        (if opt_initialized ko = Some MODE_NEVER \<and> opt_uninitialized ko = Some MODE_NEVER
         then [Split]
         else if opt_initialized ko = Some MODE_NEVER
                 \<and> list_ex (\<lambda>d. init d \<noteq> None) (declarations node)
         then [SplitInitialized]
         else if opt_uninitialized ko = Some MODE_NEVER
                 \<and> list_ex (\<lambda>d. init d = None) (declarations node)
         then [SplitUninitialized]
         else [])
      else [])"
  unfolding never_check_def Let_def total_countDeclarations cnt_uninitialized_pos
    cnt_initialized_pos messages_def split_report_def
  by simp

lemma filter_is_split_combine:
  assumes "list_all (\<lambda>r. is_combine (messageId r)) rs"
  shows "filter is_split (messages rs) = []"
  using assms is_split_not_combine by (auto simp: messages_def list_all_iff filter_empty_conv)

lemma filter_is_split_requires: "filter is_split (messages (requires_check opts ko node)) = []"
  by (simp add: requires_check_def messages_def)

lemma filter_is_split_never:
  "filter is_split (messages (never_check slp ko node parent))
     = messages (never_check slp ko node parent)"
  using never_check_reports [of slp node parent ko]
  by (simp add: messages_def list_all_iff)

lemma messages_append: "messages (xs @ ys) = messages xs @ messages ys"
  by (simp add: messages_def)

lemma always_check_returned:
  assumes "always_check opts ko node parent st = Inr (as, True, st')"
  shows "isForInOfLeft node parent
         \<and> 0 < cnt_uninitialized (countDeclarations (declarations node))"
  using always_check_Inr [OF assms] always_reports_messages [of ko node parent as True]
  by auto

section \<open>The split fix is withheld outside a statement list\<close>

text \<open>
  Claim C6. Source lines 410 to 416 and 110 to 112. When the node that encloses the
  declaration (the export declaration, for an exported one) has a parent that is not a
  statement-list parent, \<^verbatim>\<open>splitDeclarations\<close> returns \<^verbatim>\<open>null\<close>, whatever the
  options are; so every split diagnostic of a visit of that statement carries no fix.
\<close>


theorem split_fix_veto:
  assumes veto: "\<not> isInStatementList slp
             (if ptype parent = ''ExportNamedDeclaration'' then grandparent_type parent
              else ptype parent)"
    and visit: "checkVariableDeclaration slp opts node parent st = Inr (rs, st')"
  shows "splitDeclarations slp node parent = None
         \<and> list_all (\<lambda>r. is_split (messageId r) \<longrightarrow> rfix r = None) rs"
proof
  from veto show none: "splitDeclarations slp node parent = None"
    by (simp add: splitDeclarations_def)
  show "list_all (\<lambda>r. is_split (messageId r) \<longrightarrow> rfix r = None) rs"
  proof (cases "options_of opts (kind node)")
    case None
    with visit show ?thesis by (simp add: checkVariableDeclaration_def)
  next
    case (Some ko)
    from checkVariableDeclaration_parts [OF visit Some]
    obtain cs as returned where cs: "consecutive_check ko node parent = Inr cs"
      and as: "always_check opts ko node parent st = Inr (as, returned, st')"
      and rs: "rs = requires_check opts ko node @ cs @ as
                  @ (if returned then [] else never_check slp ko node parent)"
      by blast
    have "list_all (\<lambda>r. rfix r = None) (requires_check opts ko node)"
      using requires_check_reports [of opts ko node] by (simp add: list_all_iff)
    moreover have "list_all (\<lambda>r. \<not> is_split (messageId r)) cs"
      using consecutive_check_combine [OF cs] is_split_not_combine by (auto simp: list_all_iff)
    moreover have "list_all (\<lambda>r. \<not> is_split (messageId r)) as"
      using always_check_combine [OF as] is_split_not_combine by (auto simp: list_all_iff)
    moreover have "list_all (\<lambda>r. rfix r = None) (never_check slp ko node parent)"
      using never_check_reports [of slp node parent ko] none by (simp add: list_all_iff)
    ultimately show ?thesis
      unfolding rs by (auto simp: list_all_iff)
  qed
qed

text \<open>
  The witness is \<^verbatim>\<open>if (foo) var x, y;\<close> under the mode \<^verbatim>\<open>"never"\<close>: one split
  diagnostic, without a fix.
\<close>

lemma if_body_visit:
  "checkVariableDeclaration statement_list_parents (create_options (ModeString MODE_NEVER))
     if_body_node if_statement program_state
   = Inr ([\<lparr> messageId = Split, data_type = Some Var, rfix = None \<rparr>], program_state)"
  by code_simp

lemma if_body_veto: "\<not> isInStatementList statement_list_parents
             (if ptype if_statement = ''ExportNamedDeclaration'' then grandparent_type if_statement
              else ptype if_statement)"
  by code_simp

theorem split_fix_veto_witness:
  "\<not> isInStatementList statement_list_parents ''IfStatement''
   \<and> checkVariableDeclaration statement_list_parents (create_options (ModeString MODE_NEVER))
        if_body_node if_statement program_state
      = Inr ([\<lparr> messageId = Split, data_type = Some Var, rfix = None \<rparr>], program_state)
   \<and> splitDeclarations statement_list_parents if_body_node if_statement = None
   \<and> list_all (\<lambda>r. is_split (messageId r) \<and> rfix r = None)
        [\<lparr> messageId = Split, data_type = Some Var, rfix = None \<rparr>]"
  using split_fix_veto [OF if_body_veto if_body_visit] if_body_veto if_body_visit
  by (simp add: if_statement_def)

section \<open>When the scope record is written\<close>

text \<open>
  Claim C7. Source lines 342 to 374 and 280 to 296. A call that returns false leaves
  the state as it was: each of the four \<^verbatim>\<open>return false\<close> stands before the call of
  \<^verbatim>\<open>recordTypes\<close>. A call that returns true has replaced the current scope record
  of the kind by the result of \<^verbatim>\<open>recordTypes\<close> on it, which sets one flag for each
  declarator whose bucket is in the mode always (and none for a bucket in another
  mode). For a statement with at least one
  declarator, in a scope whose record is fresh, with both modes always, the call
  returns true and the record it leaves differs from the fresh one.
\<close>

theorem hasOnlyOneStatement_scope_update:
  "(hasOnlyOneStatement opts t ds st = Inr (False, st') \<longrightarrow> st' = st)
   \<and> (hasOnlyOneStatement opts t ds st = Inr (True, st') \<longrightarrow>
        (\<exists>sc. getCurrentScope t st = Some sc
              \<and> st' = setCurrentScope t (recordTypes opts t ds sc) st
              \<and> getCurrentScope t st' = Some (recordTypes opts t ds sc)))
   \<and> (opt_initialized (currentOptions_of opts t) = Some MODE_ALWAYS
        \<and> opt_uninitialized (currentOptions_of opts t) = Some MODE_ALWAYS
        \<and> getCurrentScope t st = Some fresh_scope \<and> ds \<noteq> [] \<longrightarrow>
        hasOnlyOneStatement opts t ds st
          = Inr (True, setCurrentScope t (recordTypes opts t ds fresh_scope) st)
        \<and> recordTypes opts t ds fresh_scope \<noteq> fresh_scope)"
proof (intro conjI impI)
  assume "hasOnlyOneStatement opts t ds st = Inr (False, st')"
  then show "st' = st" by (rule hasOnlyOneStatement_False)
next
  assume "hasOnlyOneStatement opts t ds st = Inr (True, st')"
  from hasOnlyOneStatement_True [OF this]
  obtain sc where sc: "getCurrentScope t st = Some sc"
    and st': "st' = setCurrentScope t (recordTypes opts t ds sc) st" by blast
  with getCurrentScope_setCurrentScope [OF sc]
  show "\<exists>sc. getCurrentScope t st = Some sc
              \<and> st' = setCurrentScope t (recordTypes opts t ds sc) st
              \<and> getCurrentScope t st' = Some (recordTypes opts t ds sc)"
    by simp
next
  assume a: "opt_initialized (currentOptions_of opts t) = Some MODE_ALWAYS
        \<and> opt_uninitialized (currentOptions_of opts t) = Some MODE_ALWAYS
        \<and> getCurrentScope t st = Some fresh_scope \<and> ds \<noteq> []"
  then have sc: "getCurrentScope t st = Some fresh_scope" by simp
  show "hasOnlyOneStatement opts t ds st
          = Inr (True, setCurrentScope t (recordTypes opts t ds fresh_scope) st)"
    unfolding hasOnlyOneStatement_Some [OF sc] by (simp add: fresh_scope_def)
  from a show "recordTypes opts t ds fresh_scope \<noteq> fresh_scope"
    using recordTypes_always by blast
qed

text \<open>
  The witness is \<^verbatim>\<open>var a, b;\<close> under \<^verbatim>\<open>"always"\<close>, visited in the fresh scope of
  the program and then once more in the scope it has left.
\<close>

lemma pair_first_visit:
  "hasOnlyOneStatement (create_options (ModeString MODE_ALWAYS)) Var (declarations pair_node)
     program_state = Inr (True, uninitialized_seen)"
  by code_simp

lemma pair_second_visit:
  "hasOnlyOneStatement (create_options (ModeString MODE_ALWAYS)) Var (declarations pair_node)
     uninitialized_seen = Inr (False, uninitialized_seen)"
  by code_simp

lemma pair_fresh:
  "opt_initialized (currentOptions_of (create_options (ModeString MODE_ALWAYS)) Var) = Some MODE_ALWAYS
   \<and> opt_uninitialized (currentOptions_of (create_options (ModeString MODE_ALWAYS)) Var) = Some MODE_ALWAYS
   \<and> getCurrentScope Var program_state = Some fresh_scope
   \<and> declarations pair_node \<noteq> []"
  by code_simp

theorem hasOnlyOneStatement_scope_update_witness:
  "hasOnlyOneStatement (create_options (ModeString MODE_ALWAYS)) Var (declarations pair_node)
     program_state = Inr (True, uninitialized_seen)
   \<and> getCurrentScope Var program_state = Some fresh_scope
   \<and> getCurrentScope Var uninitialized_seen
       = Some (recordTypes (create_options (ModeString MODE_ALWAYS)) Var
                 (declarations pair_node) fresh_scope)
   \<and> recordTypes (create_options (ModeString MODE_ALWAYS)) Var (declarations pair_node)
        fresh_scope \<noteq> fresh_scope
   \<and> hasOnlyOneStatement (create_options (ModeString MODE_ALWAYS)) Var (declarations pair_node)
        uninitialized_seen = Inr (False, uninitialized_seen)"
  using hasOnlyOneStatement_scope_update
          [of "create_options (ModeString MODE_ALWAYS)" Var "declarations pair_node"
              program_state uninitialized_seen]
        hasOnlyOneStatement_scope_update
          [of "create_options (ModeString MODE_ALWAYS)" Var "declarations pair_node"
              uninitialized_seen uninitialized_seen]
        pair_first_visit pair_second_visit pair_fresh
  by simp

section \<open>The exemption of require declarators\<close>

text \<open>
  Claim C3, as amended. Source lines 342 to 374 and 268 to 270. With both modes always
  and a scope record whose \<^verbatim>\<open>initialized\<close> or \<^verbatim>\<open>uninitialized\<close> flag is set,
  \<^verbatim>\<open>hasOnlyOneStatement\<close> finds a violation unless the statement has at least one
  require declarator (\<^verbatim>\<open>declarations.some(isRequire)\<close>). A statement with a require
  declarator, be it one of several or all, is a violation exactly when it has an
  uninitialized declarator and the \<^verbatim>\<open>uninitialized\<close> flag is set, or when the
  \<^verbatim>\<open>required\<close> flag is set.
\<close>

theorem hasOnlyOneStatement_both_always:
  assumes "opt_initialized (currentOptions_of opts t) = Some MODE_ALWAYS"
    and "opt_uninitialized (currentOptions_of opts t) = Some MODE_ALWAYS"
    and "getCurrentScope t st = Some sc"
    and "initialized sc \<or> uninitialized sc"
  shows "hasOnlyOneStatement opts t ds st =
     (if \<not> list_ex isRequire ds
         \<or> list_ex (\<lambda>d. init d = None) ds \<and> uninitialized sc
         \<or> required sc
      then Inr (False, st)
      else Inr (True, setCurrentScope t (recordTypes opts t ds sc) st))"
  unfolding hasOnlyOneStatement_Some [OF assms(3)] using assms(1,2,4) by auto

text \<open>
  The witness: after \<^verbatim>\<open>var a = 1;\<close> under \<^verbatim>\<open>"always"\<close>, the statement
  \<^verbatim>\<open>var a, b;\<close> is a violation and \<^verbatim>\<open>var a = require("x");\<close> is none.
\<close>

lemma both_always_example:
  "opt_initialized (currentOptions_of (create_options (ModeString MODE_ALWAYS)) Var) = Some MODE_ALWAYS
   \<and> opt_uninitialized (currentOptions_of (create_options (ModeString MODE_ALWAYS)) Var) = Some MODE_ALWAYS
   \<and> getCurrentScope Var initialized_seen
       = Some \<lparr> initialized = True, uninitialized = False, required = False \<rparr>"
  by code_simp

theorem hasOnlyOneStatement_both_always_witness:
  "hasOnlyOneStatement (create_options (ModeString MODE_ALWAYS)) Var (declarations pair_node)
     initialized_seen = Inr (False, initialized_seen)
   \<and> hasOnlyOneStatement (create_options (ModeString MODE_ALWAYS)) Var
       [\<lparr> init = Some require_call, drange = (4, 20) \<rparr>] initialized_seen
     = Inr (True, initialized_seen)"
proof -
  let ?opts = "create_options (ModeString MODE_ALWAYS)"
  let ?sc = "\<lparr> initialized = True, uninitialized = False, required = False \<rparr>"
  have a: "opt_initialized (currentOptions_of ?opts Var) = Some MODE_ALWAYS"
    and b: "opt_uninitialized (currentOptions_of ?opts Var) = Some MODE_ALWAYS"
    and c: "getCurrentScope Var initialized_seen = Some ?sc"
    using both_always_example by simp_all
  have d: "initialized ?sc \<or> uninitialized ?sc" by simp
  have e: "\<not> list_ex isRequire (declarations pair_node)" by code_simp
  have f: "list_ex isRequire [\<lparr> init = Some require_call, drange = (4, 20) \<rparr>]
           \<and> \<not> list_ex (\<lambda>d. init d = None) [\<lparr> init = Some require_call, drange = (4, 20) \<rparr>]"
    by code_simp
  have g: "setCurrentScope Var
             (recordTypes ?opts Var [\<lparr> init = Some require_call, drange = (4, 20) \<rparr>] ?sc)
             initialized_seen = initialized_seen"
    by code_simp
  show ?thesis
    using hasOnlyOneStatement_both_always [OF a b c d, of "declarations pair_node"]
          hasOnlyOneStatement_both_always
            [OF a b c d, of "[\<lparr> init = Some require_call, drange = (4, 20) \<rparr>]"]
          e f g
    by simp
qed

text \<open>
  The claim as stated fails: after \<^verbatim>\<open>var a = 1;\<close> under \<^verbatim>\<open>"always"\<close>, the
  statement \<^verbatim>\<open>var a = require("x"), b = 1;\<close>, of which only the first declarator is
  a require, is no violation.
\<close>

theorem mixed_requires_no_violation:
  "opt_initialized (currentOptions_of (create_options (ModeString MODE_ALWAYS)) Var) = Some MODE_ALWAYS
   \<and> opt_uninitialized (currentOptions_of (create_options (ModeString MODE_ALWAYS)) Var) = Some MODE_ALWAYS
   \<and> getCurrentScope Var initialized_seen
       = Some \<lparr> initialized = True, uninitialized = False, required = False \<rparr>
   \<and> list_ex isRequire (declarations mixed_node)
   \<and> \<not> list_all isRequire (declarations mixed_node)
   \<and> hasOnlyOneStatement (create_options (ModeString MODE_ALWAYS)) Var
        (declarations mixed_node) initialized_seen = Inr (True, initialized_seen)"
  by code_simp

section \<open>The never check reports one split diagnostic at most\<close>

text \<open>
  Claim C5. Source lines 582 to 621. A visit with a current scope record returns, and
  the split diagnostics among its reports are these. For the \<^verbatim>\<open>init\<close> of a
  \<^verbatim>\<open>for\<close> statement there is none. Otherwise, for a statement with more than one
  declarator, there is exactly the first that applies of: \<open>Split\<close> when both modes are
  never; \<open>SplitInitialized\<close> when the initialized mode is never and a declarator has
  an initializer; \<open>SplitUninitialized\<close> when the uninitialized mode is never and a
  declarator has none; and no split diagnostic when none applies or the statement has one
  declarator. The left side of a \<^verbatim>\<open>for-in\<close> or \<^verbatim>\<open>for-of\<close> has one declarator in
  every parsed program, which is the last hypothesis.
\<close>

theorem never_check_priority:
  assumes scope: "getCurrentScope (kind node) st = Some sc"
    and ko: "options_of opts (kind node) = Some ko"
    and ne: "declarations node \<noteq> []"
    and wf: "\<not> isForInOfLeft node parent \<or> length (declarations node) = 1"
  shows "\<exists>rs st'. checkVariableDeclaration slp opts node parent st = Inr (rs, st')
           \<and> filter is_split (messages rs) =
               (if ptype parent = ''ForStatement'' \<and> parent_init parent = Some (nid node)
                then []
                else if 1 < length (declarations node) then
                  (if opt_initialized ko = Some MODE_NEVER
                      \<and> opt_uninitialized ko = Some MODE_NEVER
                   then [Split]
                   else if opt_initialized ko = Some MODE_NEVER
                           \<and> list_ex (\<lambda>d. init d \<noteq> None) (declarations node)
                   then [SplitInitialized]
                   else if opt_uninitialized ko = Some MODE_NEVER
                           \<and> list_ex (\<lambda>d. init d = None) (declarations node)
                   then [SplitUninitialized]
                   else [])
                else [])"
proof -
  from checkVariableDeclaration_returns [OF scope ne ko, of parent slp]
  obtain cs as returned st' where cs: "consecutive_check ko node parent = Inr cs"
    and as: "always_check opts ko node parent st = Inr (as, returned, st')"
    and visit: "checkVariableDeclaration slp opts node parent st
               = Inr (requires_check opts ko node @ cs @ as
                       @ (if returned then [] else never_check slp ko node parent), st')"
    by blast
  let ?rs = "requires_check opts ko node @ cs @ as
               @ (if returned then [] else never_check slp ko node parent)"
  have never: "(if returned then [] else messages (never_check slp ko node parent))
                 = messages (never_check slp ko node parent)"
  proof (cases returned)
    case True
    with as always_check_returned [of opts ko node parent st as st'] wf
    have "length (declarations node) = 1" by auto
    with True show ?thesis by (simp add: never_check_messages)
  next
    case False
    then show ?thesis by simp
  qed
  have "filter is_split (messages ?rs) = messages (never_check slp ko node parent)"
    using filter_is_split_combine [OF consecutive_check_combine [OF cs]]
      filter_is_split_combine [OF always_check_combine [OF as]]
      filter_is_split_requires [of opts ko node]
      filter_is_split_never [of slp ko node parent] never
    by (simp add: messages_append messages_def split: if_splits)
  with visit show ?thesis
    unfolding never_check_messages by blast
qed

text \<open>
  The witness: \<^verbatim>\<open>var a, b;\<close> under \<^verbatim>\<open>"never"\<close> gives \<open>Split\<close>, the head of
  \<^verbatim>\<open>for (var i = 0, j = 1; i < j; i++) {}\<close> gives nothing, and the second statement
  of \<^verbatim>\<open>var a; var b, c = 1;\<close> under
  \<^verbatim>\<open>{ uninitialized: "always", initialized: "never" }\<close> gives \<open>SplitInitialized\<close>.
\<close>

lemma pair_never_scope:
  "getCurrentScope (kind pair_node) program_state = Some fresh_scope
   \<and> options_of (create_options (ModeString MODE_NEVER)) (kind pair_node)
       = Some \<lparr> opt_uninitialized = Some MODE_NEVER, opt_initialized = Some MODE_NEVER \<rparr>
   \<and> declarations pair_node \<noteq> []
   \<and> \<not> isForInOfLeft pair_node pair_program
   \<and> 1 < length (declarations pair_node)
   \<and> ptype pair_program \<noteq> ''ForStatement''"
  by code_simp

lemma for_init_scope:
  "getCurrentScope (kind for_init_node) (startBlock program_state) = Some fresh_scope
   \<and> options_of (create_options (ModeString MODE_NEVER)) (kind for_init_node)
       = Some \<lparr> opt_uninitialized = Some MODE_NEVER, opt_initialized = Some MODE_NEVER \<rparr>
   \<and> declarations for_init_node \<noteq> []
   \<and> \<not> isForInOfLeft for_init_node for_statement
   \<and> ptype for_statement = ''ForStatement''
   \<and> parent_init for_statement = Some (nid for_init_node)"
  by code_simp

lemma second_node_scope:
  "getCurrentScope (kind second_node) uninitialized_seen
     = Some \<lparr> initialized = False, uninitialized = True, required = False \<rparr>
   \<and> options_of (create_options always_never_config) (kind second_node)
       = Some \<lparr> opt_uninitialized = Some MODE_ALWAYS, opt_initialized = Some MODE_NEVER \<rparr>
   \<and> declarations second_node \<noteq> []
   \<and> \<not> isForInOfLeft second_node two_program
   \<and> 1 < length (declarations second_node)
   \<and> ptype two_program \<noteq> ''ForStatement''
   \<and> list_ex (\<lambda>d. init d \<noteq> None) (declarations second_node)"
  by code_simp

theorem never_check_priority_witness:
  "(\<exists>rs st'. checkVariableDeclaration statement_list_parents
                (create_options (ModeString MODE_NEVER)) pair_node pair_program program_state
              = Inr (rs, st')
            \<and> filter is_split (messages rs) = [Split])
   \<and> (\<exists>rs st'. checkVariableDeclaration statement_list_parents
                (create_options (ModeString MODE_NEVER)) for_init_node for_statement
                (startBlock program_state)
              = Inr (rs, st')
            \<and> filter is_split (messages rs) = [])
   \<and> (\<exists>rs st'. checkVariableDeclaration statement_list_parents
                (create_options always_never_config) second_node two_program
                uninitialized_seen
              = Inr (rs, st')
            \<and> filter is_split (messages rs) = [SplitInitialized])"
proof (intro conjI)
  have a: "getCurrentScope (kind pair_node) program_state = Some fresh_scope"
    and b: "options_of (create_options (ModeString MODE_NEVER)) (kind pair_node)
       = Some \<lparr> opt_uninitialized = Some MODE_NEVER, opt_initialized = Some MODE_NEVER \<rparr>"
    and c: "declarations pair_node \<noteq> []"
    and d: "\<not> isForInOfLeft pair_node pair_program \<or> length (declarations pair_node) = 1"
    and e: "1 < length (declarations pair_node)" "ptype pair_program \<noteq> ''ForStatement''"
    using pair_never_scope by simp_all
  show "\<exists>rs st'. checkVariableDeclaration statement_list_parents
                (create_options (ModeString MODE_NEVER)) pair_node pair_program program_state
              = Inr (rs, st')
            \<and> filter is_split (messages rs) = [Split]"
    using never_check_priority [OF a b c d, of statement_list_parents] e by simp
next
  have a: "getCurrentScope (kind for_init_node) (startBlock program_state) = Some fresh_scope"
    and b: "options_of (create_options (ModeString MODE_NEVER)) (kind for_init_node)
       = Some \<lparr> opt_uninitialized = Some MODE_NEVER, opt_initialized = Some MODE_NEVER \<rparr>"
    and c: "declarations for_init_node \<noteq> []"
    and d: "\<not> isForInOfLeft for_init_node for_statement
            \<or> length (declarations for_init_node) = 1"
    and e: "ptype for_statement = ''ForStatement''"
           "parent_init for_statement = Some (nid for_init_node)"
    using for_init_scope by simp_all
  show "\<exists>rs st'. checkVariableDeclaration statement_list_parents
                (create_options (ModeString MODE_NEVER)) for_init_node for_statement
                (startBlock program_state)
              = Inr (rs, st')
            \<and> filter is_split (messages rs) = []"
    using never_check_priority [OF a b c d, of statement_list_parents] e by simp
next
  have a: "getCurrentScope (kind second_node) uninitialized_seen
     = Some \<lparr> initialized = False, uninitialized = True, required = False \<rparr>"
    and b: "options_of (create_options always_never_config) (kind second_node)
       = Some \<lparr> opt_uninitialized = Some MODE_ALWAYS, opt_initialized = Some MODE_NEVER \<rparr>"
    and c: "declarations second_node \<noteq> []"
    and d: "\<not> isForInOfLeft second_node two_program \<or> length (declarations second_node) = 1"
    and e: "1 < length (declarations second_node)" "ptype two_program \<noteq> ''ForStatement''"
      "list_ex (\<lambda>d. init d \<noteq> None) (declarations second_node)"
    using second_node_scope by simp_all
  show "\<exists>rs st'. checkVariableDeclaration statement_list_parents
                (create_options always_never_config) second_node two_program
                uninitialized_seen
              = Inr (rs, st')
            \<and> filter is_split (messages rs) = [SplitInitialized]"
    using never_check_priority [OF a b c d, of statement_list_parents] e by simp
qed

section \<open>The diagnostic for mixed require declarators\<close>

lemma mixedRequires_nonempty: "mixedRequires ds \<Longrightarrow> ds \<noteq> []"
  by (auto simp: mixedRequires_def)

lemma no_SplitRequires_combine:
  assumes "list_all (\<lambda>r. is_combine (messageId r)) rs"
  shows "filter (\<lambda>m. m = SplitRequires) (messages rs) = []"
  using assms by (auto simp: messages_def list_all_iff filter_empty_conv)

lemma no_SplitRequires_split:
  assumes "list_all (\<lambda>r. is_split (messageId r) \<and> P r) rs"
  shows "filter (\<lambda>m. m = SplitRequires) (messages rs) = []"
  using assms by (auto simp: messages_def list_all_iff filter_empty_conv)

text \<open>
  Claim C1, as amended. Source lines 484 to 493. For a statement of a configured kind
  that mixes require declarators with others, with \<^verbatim>\<open>separateRequires\<close> enabled, a
  visit with a current scope record returns, and it reports exactly one
  \<open>SplitRequires\<close> diagnostic when the initialized mode of the kind is always, and
  none otherwise: the report stands under the test
  \<^verbatim>\<open>options[type].initialized === MODE_ALWAYS\<close>.
\<close>

theorem splitRequires_report:
  assumes scope: "getCurrentScope (kind node) st = Some sc"
    and ko: "options_of opts (kind node) = Some ko"
    and sep: "separateRequires opts"
    and mixed: "mixedRequires (declarations node)"
  shows "\<exists>rs st'. checkVariableDeclaration slp opts node parent st = Inr (rs, st')
           \<and> filter (\<lambda>m. m = SplitRequires) (messages rs)
               = (if opt_initialized ko = Some MODE_ALWAYS then [SplitRequires] else [])"
proof -
  from checkVariableDeclaration_returns [OF scope mixedRequires_nonempty [OF mixed] ko, of parent slp]
  obtain cs as returned st' where cs: "consecutive_check ko node parent = Inr cs"
    and as: "always_check opts ko node parent st = Inr (as, returned, st')"
    and visit: "checkVariableDeclaration slp opts node parent st
               = Inr (requires_check opts ko node @ cs @ as
                       @ (if returned then [] else never_check slp ko node parent), st')"
    by blast
  have "filter (\<lambda>m. m = SplitRequires) (messages (requires_check opts ko node))
          = (if opt_initialized ko = Some MODE_ALWAYS then [SplitRequires] else [])"
    using sep mixed by (simp add: requires_check_def messages_def)
  moreover have "filter (\<lambda>m. m = SplitRequires)
                   (messages (if returned then [] else never_check slp ko node parent)) = []"
    using no_SplitRequires_split [OF never_check_reports [of slp node parent ko]]
    by (simp add: messages_def)
  ultimately have "filter (\<lambda>m. m = SplitRequires)
      (messages (requires_check opts ko node @ cs @ as
                       @ (if returned then [] else never_check slp ko node parent)))
      = (if opt_initialized ko = Some MODE_ALWAYS then [SplitRequires] else [])"
    using no_SplitRequires_combine [OF consecutive_check_combine [OF cs]]
      no_SplitRequires_combine [OF always_check_combine [OF as]]
    by (simp only: messages_append filter_append append_Nil2 append_Nil)
  with visit show ?thesis by blast
qed

text \<open>
  The witness is \<^verbatim>\<open>var a = require("x"), b = 1;\<close> under
  \<^verbatim>\<open>{ separateRequires: true, var: "always" }\<close>.
\<close>

lemma mixed_always_example:
  "getCurrentScope (kind mixed_node) program_state = Some fresh_scope
   \<and> options_of (create_options (separate_config (Some MODE_ALWAYS))) (kind mixed_node)
       = Some \<lparr> opt_uninitialized = Some MODE_ALWAYS, opt_initialized = Some MODE_ALWAYS \<rparr>
   \<and> separateRequires (create_options (separate_config (Some MODE_ALWAYS)))
   \<and> mixedRequires (declarations mixed_node)"
  by code_simp

theorem splitRequires_report_witness:
  "\<exists>rs st'. checkVariableDeclaration statement_list_parents
       (create_options (separate_config (Some MODE_ALWAYS))) mixed_node mixed_program
       program_state = Inr (rs, st')
     \<and> filter (\<lambda>m. m = SplitRequires) (messages rs) = [SplitRequires]"
proof -
  have a: "getCurrentScope (kind mixed_node) program_state = Some fresh_scope"
    and b: "options_of (create_options (separate_config (Some MODE_ALWAYS))) (kind mixed_node)
       = Some \<lparr> opt_uninitialized = Some MODE_ALWAYS, opt_initialized = Some MODE_ALWAYS \<rparr>"
    and c: "separateRequires (create_options (separate_config (Some MODE_ALWAYS)))"
    and d: "mixedRequires (declarations mixed_node)"
    using mixed_always_example by simp_all
  show ?thesis
    using splitRequires_report [OF a b c d, of statement_list_parents mixed_program] by simp
qed

text \<open>
  The claim as stated fails on the same statement: under \<^verbatim>\<open>{ separateRequires: true }\<close>
  alone the visit reports nothing, and under
  \<^verbatim>\<open>{ separateRequires: true, var: "never" }\<close> it reports \<open>Split\<close> only.
\<close>

theorem splitRequires_not_reported:
  "separateRequires (create_options (separate_config None))
   \<and> separateRequires (create_options (separate_config (Some MODE_NEVER)))
   \<and> mixedRequires (declarations mixed_node)
   \<and> visit_messages (checkVariableDeclaration statement_list_parents
        (create_options (separate_config None)) mixed_node mixed_program program_state)
      = Some []
   \<and> visit_messages (checkVariableDeclaration statement_list_parents
        (create_options (separate_config (Some MODE_NEVER))) mixed_node mixed_program
        program_state)
      = Some [Split]"
  by code_simp

section \<open>The early return for the head of a for-in or for-of loop\<close>

text \<open>
  Claim C10. Source lines 565 to 577 and 582 to 621. Let the statement be the
  \<^verbatim>\<open>left\<close> of a \<^verbatim>\<open>for-in\<close> or \<^verbatim>\<open>for-of\<close> statement, the uninitialized mode of
  its kind be always and the initialized mode not, let it have a declarator without
  initializer, and let \<^verbatim>\<open>hasOnlyOneStatement\<close> return false. Then the scope-wide
  check reports nothing and returns at line 567, and the visit ends there: its reports
  are those of the consecutive check alone, none of which is \<open>CombineUninitialized\<close>
  or a split diagnostic, whatever the never check would have reported; the state is
  unchanged.
\<close>

theorem for_in_of_early_return:
  assumes left: "isForInOfLeft node parent"
    and ko: "options_of opts (kind node) = Some ko"
    and un: "opt_uninitialized ko = Some MODE_ALWAYS"
    and ini: "opt_initialized ko \<noteq> Some MODE_ALWAYS"
    and has: "list_ex (\<lambda>d. init d = None) (declarations node)"
    and violation: "hasOnlyOneStatement opts (kind node) (declarations node) st = Inr (False, st')"
  shows "always_check opts ko node parent st = Inr ([], True, st)
         \<and> (\<exists>cs. consecutive_check ko node parent = Inr cs
                \<and> checkVariableDeclaration slp opts node parent st = Inr (cs, st)
                \<and> list_all (\<lambda>m. m \<noteq> CombineUninitialized \<and> \<not> is_split m) (messages cs))"
proof -
  from has have ne: "declarations node \<noteq> []" by auto
  have st': "st' = st"
    using hasOnlyOneStatement_False [OF violation] .
  have reports: "always_reports ko node parent = Inr ([], True)"
    using left un ini has
    by (simp add: always_reports_def Let_def cnt_uninitialized_pos)
  with violation st' have always: "always_check opts ko node parent st = Inr ([], True, st)"
    by (simp add: always_check_def)
  obtain cs where cs: "consecutive_check ko node parent = Inr cs"
    using consecutive_check_returns [OF ne] by blast
  have "requires_check opts ko node = []"
    using ini by (simp add: requires_check_def)
  with cs always ko have visit: "checkVariableDeclaration slp opts node parent st = Inr (cs, st)"
    by (simp add: checkVariableDeclaration_def)
  have "list_all (\<lambda>m. m \<noteq> CombineUninitialized \<and> \<not> is_split m) (messages cs)"
    using consecutive_check_messages [OF cs] un by (auto simp: messages_def)
  with always cs visit show ?thesis by simp
qed

text \<open>
  The witness is the loop head of \<^verbatim>\<open>var x; for (var a in obj) {}\<close> under
  \<^verbatim>\<open>{ uninitialized: "always", initialized: "never" }\<close>.
\<close>

lemma for_in_example:
  "isForInOfLeft for_in_node for_in_statement
   \<and> options_of (create_options always_never_config) (kind for_in_node)
       = Some \<lparr> opt_uninitialized = Some MODE_ALWAYS, opt_initialized = Some MODE_NEVER \<rparr>
   \<and> list_ex (\<lambda>d. init d = None) (declarations for_in_node)
   \<and> hasOnlyOneStatement (create_options always_never_config) (kind for_in_node)
        (declarations for_in_node) for_in_state = Inr (False, for_in_state)"
  by code_simp

theorem for_in_of_early_return_witness:
  "always_check (create_options always_never_config)
     \<lparr> opt_uninitialized = Some MODE_ALWAYS, opt_initialized = Some MODE_NEVER \<rparr>
     for_in_node for_in_statement for_in_state = Inr ([], True, for_in_state)
   \<and> checkVariableDeclaration statement_list_parents (create_options always_never_config)
       for_in_node for_in_statement for_in_state = Inr ([], for_in_state)"
proof -
  let ?ko = "\<lparr> opt_uninitialized = Some MODE_ALWAYS, opt_initialized = Some MODE_NEVER \<rparr>"
  have a: "isForInOfLeft for_in_node for_in_statement"
    and b: "options_of (create_options always_never_config) (kind for_in_node) = Some ?ko"
    and c: "opt_uninitialized ?ko = Some MODE_ALWAYS"
    and d: "opt_initialized ?ko \<noteq> Some MODE_ALWAYS"
    and e: "list_ex (\<lambda>d. init d = None) (declarations for_in_node)"
    and f: "hasOnlyOneStatement (create_options always_never_config) (kind for_in_node)
        (declarations for_in_node) for_in_state = Inr (False, for_in_state)"
    using for_in_example by simp_all
  have g: "consecutive_check ?ko for_in_node for_in_statement = Inr []"
    by code_simp
  show ?thesis
    using for_in_of_early_return [OF a b c d e f, of statement_list_parents] g by simp
qed

section \<open>Combine and split diagnostics of one visit\<close>

lemma always_check_messages:
  assumes "always_check opts ko node parent st = Inr (as, returned, st')"
  shows "(Combine \<in> set (messages as) \<longrightarrow>
            opt_initialized ko = Some MODE_ALWAYS \<and> opt_uninitialized ko = Some MODE_ALWAYS)
         \<and> (CombineInitialized \<in> set (messages as) \<longrightarrow> opt_initialized ko = Some MODE_ALWAYS)
         \<and> (CombineUninitialized \<in> set (messages as) \<longrightarrow> opt_uninitialized ko = Some MODE_ALWAYS)
         \<and> (as \<noteq> [] \<longrightarrow>
              opt_initialized ko = Some MODE_ALWAYS \<or> opt_uninitialized ko = Some MODE_ALWAYS)"
proof -
  from always_check_Inr [OF assms]
  consider "as = []" | "always_reports ko node parent = Inr (as, returned)" by blast
  then show ?thesis
  proof cases
    case 1
    then show ?thesis by (simp add: messages_def)
  next
    case 2
    have "as \<noteq> [] \<longrightarrow> messages as \<noteq> []" by (simp add: messages_def)
    with always_reports_messages [OF 2] show ?thesis
      by (auto split: if_splits)
  qed
qed

text \<open>
  Claim C2, as amended. Source lines 544 to 621. The modes are set per bucket, so a
  diagnostic of the scope-wide check and one of the never check exclude each other
  bucket by bucket: in the reports of one visit, \<open>Combine\<close> of the scope-wide check
  excludes every split diagnostic, \<open>Split\<close> excludes every diagnostic of the scope-wide
  check, \<open>CombineInitialized\<close> excludes \<open>SplitInitialized\<close>, and
  \<open>CombineUninitialized\<close> excludes \<open>SplitUninitialized\<close>. Here \<open>as\<close> are the
  reports of the scope-wide check and \<open>ns\<close> those of the never check.
\<close>

theorem combine_split_exclusive:
  assumes visit: "checkVariableDeclaration slp opts node parent st = Inr (rs, st')"
    and ko: "options_of opts (kind node) = Some ko"
  shows "\<exists>cs as returned ns.
           consecutive_check ko node parent = Inr cs
           \<and> always_check opts ko node parent st = Inr (as, returned, st')
           \<and> ns = (if returned then [] else never_check slp ko node parent)
           \<and> rs = requires_check opts ko node @ cs @ as @ ns
           \<and> \<not> (Combine \<in> set (messages as) \<and> ns \<noteq> [])
           \<and> \<not> (as \<noteq> [] \<and> Split \<in> set (messages ns))
           \<and> \<not> (CombineInitialized \<in> set (messages as) \<and> SplitInitialized \<in> set (messages ns))
           \<and> \<not> (CombineUninitialized \<in> set (messages as)
                  \<and> SplitUninitialized \<in> set (messages ns))
           \<and> \<not> (opt_initialized ko = opt_uninitialized ko \<and> as \<noteq> [] \<and> ns \<noteq> [])"
proof -
  from checkVariableDeclaration_parts [OF visit ko]
  obtain cs as returned where cs: "consecutive_check ko node parent = Inr cs"
    and as: "always_check opts ko node parent st = Inr (as, returned, st')"
    and rs: "rs = requires_check opts ko node @ cs @ as
                  @ (if returned then [] else never_check slp ko node parent)"
    by blast
  let ?ns = "if returned then [] else never_check slp ko node parent"
  have never: "set (messages ?ns) \<subseteq> set (messages (never_check slp ko node parent))"
    by (simp add: messages_def)
  have empty: "?ns \<noteq> [] \<longrightarrow> messages (never_check slp ko node parent) \<noteq> []"
    by (simp add: messages_def)
  note a = always_check_messages [OF as]
  note n = never_check_messages [of slp ko node parent]
  have 1: "\<not> (Combine \<in> set (messages as) \<and> ?ns \<noteq> [])"
    using a empty unfolding n by (auto split: if_splits)
  have 2: "\<not> (as \<noteq> [] \<and> Split \<in> set (messages ?ns))"
    using a never unfolding n by (auto split: if_splits)
  have 3: "\<not> (CombineInitialized \<in> set (messages as) \<and> SplitInitialized \<in> set (messages ?ns))"
    using a never unfolding n by (auto split: if_splits)
  have 4: "\<not> (CombineUninitialized \<in> set (messages as)
              \<and> SplitUninitialized \<in> set (messages ?ns))"
    using a never unfolding n by (auto split: if_splits)
  have 5: "\<not> (opt_initialized ko = opt_uninitialized ko \<and> as \<noteq> [] \<and> ?ns \<noteq> [])"
    using a empty unfolding n by (auto split: if_splits)
  from cs as rs 1 2 3 4 5 show ?thesis by blast
qed

text \<open>
  The witness is the second statement of \<^verbatim>\<open>var a; var b, c = 1;\<close> under
  \<^verbatim>\<open>{ uninitialized: "always", initialized: "never" }\<close>, in the state the first
  statement has left.
\<close>

lemma second_visit_returns:
  "getCurrentScope (kind second_node) uninitialized_seen
     = Some \<lparr> initialized = False, uninitialized = True, required = False \<rparr>
   \<and> declarations second_node \<noteq> []
   \<and> options_of (create_options always_never_config) (kind second_node)
       = Some \<lparr> opt_uninitialized = Some MODE_ALWAYS, opt_initialized = Some MODE_NEVER \<rparr>"
  by code_simp

lemma second_visit_checks:
  "map_sum id (\<lambda>(as, returned, st'). (messages as, returned, st'))
        (always_check (create_options always_never_config)
           \<lparr> opt_uninitialized = Some MODE_ALWAYS, opt_initialized = Some MODE_NEVER \<rparr>
           second_node two_program uninitialized_seen)
      = Inr ([CombineUninitialized], False, uninitialized_seen)
   \<and> messages (never_check statement_list_parents
        \<lparr> opt_uninitialized = Some MODE_ALWAYS, opt_initialized = Some MODE_NEVER \<rparr>
        second_node two_program)
      = [SplitInitialized]"
  by code_simp

theorem combine_split_exclusive_witness:
  "\<exists>rs cs as returned ns.
     checkVariableDeclaration statement_list_parents (create_options always_never_config)
       second_node two_program uninitialized_seen = Inr (rs, uninitialized_seen)
     \<and> rs = requires_check (create_options always_never_config)
              \<lparr> opt_uninitialized = Some MODE_ALWAYS, opt_initialized = Some MODE_NEVER \<rparr>
              second_node @ cs @ as @ ns
     \<and> messages as = [CombineUninitialized]
     \<and> messages ns = [SplitInitialized]
     \<and> \<not> (Combine \<in> set (messages as) \<and> ns \<noteq> [])
     \<and> \<not> (as \<noteq> [] \<and> Split \<in> set (messages ns))
     \<and> \<not> (CombineInitialized \<in> set (messages as) \<and> SplitInitialized \<in> set (messages ns))
     \<and> \<not> (CombineUninitialized \<in> set (messages as) \<and> SplitUninitialized \<in> set (messages ns))"
proof -
  let ?opts = "create_options always_never_config"
  let ?ko = "\<lparr> opt_uninitialized = Some MODE_ALWAYS, opt_initialized = Some MODE_NEVER \<rparr>"
  have a: "getCurrentScope (kind second_node) uninitialized_seen
     = Some \<lparr> initialized = False, uninitialized = True, required = False \<rparr>"
    and b: "declarations second_node \<noteq> []"
    and ko: "options_of ?opts (kind second_node) = Some ?ko"
    using second_visit_returns by simp_all
  from checkVariableDeclaration_returns [OF a b ko, of two_program statement_list_parents]
  obtain rs st' where visit: "checkVariableDeclaration statement_list_parents ?opts
       second_node two_program uninitialized_seen = Inr (rs, st')"
    by blast
  from combine_split_exclusive [OF visit ko]
  obtain cs as returned ns where
    always: "always_check ?opts ?ko second_node two_program uninitialized_seen
              = Inr (as, returned, st')"
    and ns: "ns = (if returned then [] else never_check statement_list_parents ?ko
                     second_node two_program)"
    and rs: "rs = requires_check ?opts ?ko second_node @ cs @ as @ ns"
    and excl: "\<not> (Combine \<in> set (messages as) \<and> ns \<noteq> [])"
      "\<not> (as \<noteq> [] \<and> Split \<in> set (messages ns))"
      "\<not> (CombineInitialized \<in> set (messages as) \<and> SplitInitialized \<in> set (messages ns))"
      "\<not> (CombineUninitialized \<in> set (messages as) \<and> SplitUninitialized \<in> set (messages ns))"
    by blast
  from always second_visit_checks
  have as: "messages as = [CombineUninitialized]" and ret: "\<not> returned"
    and st': "st' = uninitialized_seen"
    by simp_all
  from ns ret second_visit_checks have "messages ns = [SplitInitialized]" by simp
  with visit rs as excl st' show ?thesis by blast
qed

text \<open>
  The claim as stated fails there: the first statement leaves the state
  \<open>uninitialized_seen\<close>, and the visit of the second reports
  \<open>CombineUninitialized\<close>, from the scope-wide check, and \<open>SplitInitialized\<close>, from
  the never check.
\<close>

theorem combine_and_split_together:
  "checkVariableDeclaration statement_list_parents (create_options always_never_config)
     first_node two_program program_state = Inr ([], uninitialized_seen)
   \<and> visit_messages (checkVariableDeclaration statement_list_parents
        (create_options always_never_config) second_node two_program uninitialized_seen)
      = Some [CombineUninitialized, SplitInitialized]
   \<and> map_sum id (\<lambda>(as, returned, st'). (messages as, returned, st'))
        (always_check (create_options always_never_config)
           \<lparr> opt_uninitialized = Some MODE_ALWAYS, opt_initialized = Some MODE_NEVER \<rparr>
           second_node two_program uninitialized_seen)
      = Inr ([CombineUninitialized], False, uninitialized_seen)
   \<and> messages (never_check statement_list_parents
        \<lparr> opt_uninitialized = Some MODE_ALWAYS, opt_initialized = Some MODE_NEVER \<rparr>
        second_node two_program)
      = [SplitInitialized]"
  by code_simp

section \<open>The split fix of \<^verbatim>\<open>var a, b;\<close>\<close>

text \<open>
  Claim C4, as amended. Source lines 418 to 465 and 585 to 596. Under the mode
  \<^verbatim>\<open>"never"\<close>, the visit of \<^verbatim>\<open>var a, b;\<close> reports exactly one diagnostic,
  \<open>Split\<close>, with a fix. The comma is followed by a space and by \<^verbatim>\<open>b\<close> on the same
  line, so the closure takes the branch of line 464 and replaces the comma by
  \<^verbatim>\<open>; var\<close>, keeping the space that follows: the fixed text is
  \<^verbatim>\<open>var a; var b;\<close>, on one line.
\<close>

theorem never_pair_fix:
  "checkVariableDeclaration statement_list_parents (create_options (ModeString MODE_NEVER))
     pair_node pair_program program_state
   = Inr ([\<lparr> messageId = Split, data_type = Some Var,
             rfix = Some (SplitClosure pair_node pair_program) \<rparr>], program_state)
   \<and> run_fix pair_source (SplitClosure pair_node pair_program) program_state
     = Some (Inr [\<lparr> erange = (5, 6), etext = ''; var'' \<rparr>], program_state)
   \<and> apply_edits [\<lparr> erange = (5, 6), etext = ''; var'' \<rparr>] (src_text pair_source)
     = ''var a; var b;''"
  by code_simp

text \<open>
  The claim as stated fails: the text after the fix is not \<^verbatim>\<open>var a;\<close>, a newline,
  \<^verbatim>\<open>var b;\<close>.
\<close>

theorem never_pair_fix_no_newline:
  "split_fix pair_source pair_node pair_program program_state
     = Some (Inr [\<lparr> erange = (5, 6), etext = ''; var'' \<rparr>], program_state)
   \<and> apply_edits [\<lparr> erange = (5, 6), etext = ''; var'' \<rparr>] (src_text pair_source)
     \<noteq> ''var a;'' @ [CHR 0x0A] @ ''var b;''"
  by code_simp

section \<open>A fix closure leaves the stacks alone\<close>

subsection \<open>The state through the closure bodies\<close>

text \<open>
  Each part of a closure body leaves the state it started in, and returns in any other
  state what it returns in this one. For the loop over comments this is an induction
  over its rounds, for the map an induction over the declarators.
\<close>

lemma join_fix_frame:
  assumes "join_fix src d previousNode st = (r, st')"
  shows "st' = st \<and> join_fix src d previousNode st2 = (r, st2)"
  using assms by (auto simp: join_fix_def Let_def split: option.splits if_splits)

lemma lastComment_loop_frame_all:
  assumes "lastComment_loop src tok st = Some y"
  shows "snd y = st \<and> (\<forall>st2. lastComment_loop src tok st2 = Some (fst y, st2))"
proof (rule lastComment_loop.raw_induct
    [where P = "\<lambda>s t u z. snd z = u \<and> (\<forall>st2. lastComment_loop s t st2 = Some (fst z, st2))",
     OF _ assms])
  fix loop s t u z
  assume IH: "\<And>a b c w. loop a b c = Some w \<Longrightarrow>
                snd w = c \<and> (\<forall>st2. lastComment_loop a b st2 = Some (fst w, st2))"
    and round: "(if ttype t = ''Line'' \<or> ttype t = ''Block'' then
                   (case getTokenAfter s (trange t) True of
                      None \<Rightarrow> Some (Inl TypeError, u)
                    | Some next_token \<Rightarrow> loop s next_token u)
                 else Some (Inr t, u)) = Some z"
  show "snd z = u \<and> (\<forall>st2. lastComment_loop s t st2 = Some (fst z, st2))"
  proof (cases "ttype t = ''Line'' \<or> ttype t = ''Block''")
    case False
    with round have "z = (Inr t, u)" by auto
    with False show ?thesis by (subst lastComment_loop.simps) simp
  next
    case comment: True
    show ?thesis
    proof (cases "getTokenAfter s (trange t) True")
      case None
      with comment round have "z = (Inl TypeError, u)" by auto
      with comment None show ?thesis by (subst lastComment_loop.simps) simp
    next
      case (Some next_token)
      with comment round have "loop s next_token u = Some z" by auto
      from IH [OF this]
      have "snd z = u \<and> (\<forall>st2. lastComment_loop s next_token st2 = Some (fst z, st2))" .
      with comment Some show ?thesis by (subst lastComment_loop.simps) simp
    qed
  qed
qed

lemma lastComment_loop_frame:
  assumes "lastComment_loop src tok st = Some (r, st')"
  shows "st' = st \<and> lastComment_loop src tok st2 = Some (r, st2)"
  using lastComment_loop_frame_all [OF assms] by simp

lemma split_one_frame:
  assumes "split_one src node parent d st = Some (r, st')"
  shows "st' = st \<and> split_one src node parent d st2 = Some (r, st2)"
proof (cases "getTokenAfter src (drange d) False")
  case None
  with assms show ?thesis by (auto simp: split_one_def)
next
  case tad: (Some tokenAfterDeclarator)
  show ?thesis
  proof (cases "getTokenAfter src (trange tokenAfterDeclarator) True")
    case None
    with assms tad show ?thesis by (auto simp: split_one_def split: if_splits)
  next
    case ac: (Some afterComma)
    show ?thesis
    proof (cases "lastComment_loop src afterComma st")
      case None
      with assms tad ac show ?thesis
        by (auto simp: split_one_def split: if_splits)
    next
      case (Some y)
      obtain q s where y: "y = (q, s)" by (cases y)
      from lastComment_loop_frame [of src afterComma st q s st2] Some y
      have s: "s = st" and l2: "lastComment_loop src afterComma st2 = Some (q, st2)"
        by simp_all
      from assms tad ac Some y s l2 show ?thesis
        by (cases q) (auto simp: split_one_def split: if_splits)
    qed
  qed
qed

lemma split_map_frame:
  assumes "split_map src node parent ds st = Some (r, st')"
  shows "st' = st \<and> split_map src node parent ds st2 = Some (r, st2)"
  using assms
proof (induction ds arbitrary: r st st' st2)
  case Nil
  then show ?case by auto
next
  case (Cons d ds)
  from Cons.prems obtain q s where one: "split_one src node parent d st = Some (q, s)"
    by (cases "split_one src node parent d st") auto
  from split_one_frame [OF one, of st2]
  have s: "s = st" and one2: "split_one src node parent d st2 = Some (q, st2)" by simp_all
  show ?case
  proof (cases q)
    case (Inl e)
    with Cons.prems one one2 s show ?thesis by auto
  next
    case (Inr x)
    with Cons.prems one s obtain q' s' where
      rest: "split_map src node parent ds st = Some (q', s')"
      by (cases "split_map src node parent ds st") auto
    from Cons.IH [OF rest, of st2]
    have "s' = st" and "split_map src node parent ds st2 = Some (q', st2)" by simp_all
    with Cons.prems one one2 s Inr rest show ?thesis
      by (cases q') auto
  qed
qed

lemma split_fix_frame:
  assumes "split_fix src node parent st = Some (r, st')"
  shows "st' = st \<and> split_fix src node parent st2 = Some (r, st2)"
proof -
  from assms obtain q s where
    m: "split_map src node parent (declarations node) st = Some (q, s)"
    by (cases "split_map src node parent (declarations node) st") (auto simp: split_fix_def)
  from split_map_frame [OF m, of st2]
  have "s = st" and "split_map src node parent (declarations node) st2 = Some (q, st2)"
    by simp_all
  with assms m show ?thesis
    by (cases q) (auto simp: split_fix_def)
qed

lemma run_fix_Some:
  assumes "run_fix src c st = Some (r, st')"
  shows "st' = st \<and> run_fix src c st2 = Some (r, st2)"
proof (cases c)
  case (JoinClosure d previousNode)
  with assms join_fix_frame [of src d previousNode st r st' st2] show ?thesis by simp
next
  case (SplitClosure node parent)
  with assms split_fix_frame [of src node parent st r st' st2] show ?thesis by simp
qed

lemma run_fix_None:
  assumes "run_fix src c st = None"
  shows "run_fix src c st2 = None"
proof (cases "run_fix src c st2")
  case None
  then show ?thesis .
next
  case (Some y)
  obtain r s where "y = (r, s)" by (cases y)
  with Some run_fix_Some [of src c st2 r s st] assms show ?thesis by simp
qed

subsection \<open>The closures return\<close>

text \<open>
  The loop over comments ends when every token and comment of the source has a
  non-empty range, as those of a tokenizer have: each round moves to a token that
  starts at or after the end of the last one.
\<close>

lemma getTokenAfter_Some:
  assumes "getTokenAfter src r includeComments = Some t"
  shows "t \<in> set (tokensAndComments src) \<and> snd r \<le> fst (trange t)"
  using assms by (auto simp: getTokenAfter_def find_Some_iff)

lemma tokens_after_less:
  assumes wf: "\<forall>t \<in> set ts. fst (trange t) < snd (trange t)"
    and n: "n \<in> set ts" and after: "e \<le> fst (trange n)"
  shows "length (filter (\<lambda>t. snd (trange n) \<le> fst (trange t)) ts)
         < length (filter (\<lambda>t. e \<le> fst (trange t)) ts)"
proof -
  from wf n have pos: "fst (trange n) < snd (trange n)" by blast
  have "filter (\<lambda>t. snd (trange n) \<le> fst (trange t)) ts
        = filter (\<lambda>t. snd (trange n) \<le> fst (trange t)) (filter (\<lambda>t. e \<le> fst (trange t)) ts)"
    using after pos by (auto intro: filter_cong)
  moreover have "n \<in> set (filter (\<lambda>t. e \<le> fst (trange t)) ts)"
    using n after by simp
  moreover have "\<not> snd (trange n) \<le> fst (trange n)"
    using pos by simp
  ultimately show ?thesis
    using length_filter_less
      [of n "filter (\<lambda>t. e \<le> fst (trange t)) ts" "\<lambda>t. snd (trange n) \<le> fst (trange t)"]
    by simp
qed

lemma lastComment_loop_returns:
  assumes wf: "\<forall>t \<in> set (tokensAndComments src). fst (trange t) < snd (trange t)"
  shows "\<exists>r. lastComment_loop src tok st = Some (r, st)"
proof (induction "length (filter (\<lambda>t. snd (trange tok) \<le> fst (trange t)) (tokensAndComments src))"
        arbitrary: tok rule: less_induct)
  case less
  show ?case
  proof (cases "ttype tok = ''Line'' \<or> ttype tok = ''Block''")
    case False
    then show ?thesis by (subst lastComment_loop.simps) simp
  next
    case comment: True
    show ?thesis
    proof (cases "getTokenAfter src (trange tok) True")
      case None
      with comment show ?thesis by (subst lastComment_loop.simps) simp
    next
      case (Some n)
      from getTokenAfter_Some [OF Some]
      have "n \<in> set (tokensAndComments src)" and "snd (trange tok) \<le> fst (trange n)"
        by simp_all
      from less [OF tokens_after_less [OF wf this]]
      obtain r where "lastComment_loop src n st = Some (r, st)" by blast
      with comment Some show ?thesis by (subst lastComment_loop.simps) simp
    qed
  qed
qed

lemma split_one_returns:
  assumes "\<forall>t \<in> set (tokensAndComments src). fst (trange t) < snd (trange t)"
  shows "\<exists>r. split_one src node parent d st = Some (r, st)"
proof (cases "getTokenAfter src (drange d) False")
  case None
  then show ?thesis by (simp add: split_one_def)
next
  case tad: (Some tokenAfterDeclarator)
  show ?thesis
  proof (cases "getTokenAfter src (trange tokenAfterDeclarator) True")
    case None
    with tad show ?thesis by (simp add: split_one_def)
  next
    case (Some afterComma)
    from lastComment_loop_returns [OF assms, of afterComma st]
    obtain r where r: "lastComment_loop src afterComma st = Some (r, st)" by blast
    show ?thesis
    proof (cases r)
      case (Inl e)
      with tad Some r show ?thesis by (simp add: split_one_def)
    next
      case (Inr lastComment)
      with tad Some r show ?thesis by (simp add: split_one_def)
    qed
  qed
qed

lemma split_map_returns:
  assumes "\<forall>t \<in> set (tokensAndComments src). fst (trange t) < snd (trange t)"
  shows "\<exists>r. split_map src node parent ds st = Some (r, st)"
proof (induction ds)
  case Nil
  show ?case by simp
next
  case (Cons d ds)
  from split_one_returns [OF assms, of node parent d st]
  obtain q where q: "split_one src node parent d st = Some (q, st)" by blast
  from Cons obtain q' where q': "split_map src node parent ds st = Some (q', st)" by blast
  show ?case
  proof (cases q)
    case (Inl e)
    with q show ?thesis by simp
  next
    case (Inr x)
    with q q' show ?thesis by (cases q') simp_all
  qed
qed

lemma run_fix_returns:
  assumes "\<forall>t \<in> set (tokensAndComments src). fst (trange t) < snd (trange t)"
  shows "\<exists>r. run_fix src c st = Some (r, st)"
proof (cases c)
  case (JoinClosure d previousNode)
  obtain r s where j: "join_fix src d previousNode st = (r, s)"
    by (cases "join_fix src d previousNode st")
  from join_fix_frame [OF j, of st] JoinClosure j show ?thesis by simp
next
  case (SplitClosure node parent)
  from split_map_returns [OF assms, of node parent "declarations node" st]
  obtain q where "split_map src node parent (declarations node) st = Some (q, st)" by blast
  with SplitClosure show ?thesis by (cases q) (simp_all add: split_fix_def)
qed

text \<open>
  Claim C9. Source lines 387 to 402 and 418 to 465. The two stacks are in the scope
  of the closure bodies, so the bodies are embedded as functions of the state of the
  stacks, line by line. No line of either body assigns to \<^verbatim>\<open>functionStack\<close> or
  \<^verbatim>\<open>blockStack\<close> or calls a function of the rule that does. So an evaluation that
  returns, with edits or with a \<^verbatim>\<open>TypeError\<close>, leaves the state \<open>st\<close> it started
  in, and an evaluation in any other state \<open>st2\<close> (the state at report time, the
  state later visits have left, the empty stacks after the traversal) returns the same
  result and leaves \<open>st2\<close>: the edits depend on the source and the closure alone, and
  every evaluation gives the same edits. When every token has a non-empty range, the
  evaluation does return.
\<close>

theorem run_fix_frame:
  "(run_fix src c st = Some (result, st') \<longrightarrow>
      st' = st \<and> run_fix src c st2 = Some (result, st2))
   \<and> ((\<forall>t \<in> set (tokensAndComments src). fst (trange t) < snd (trange t)) \<longrightarrow>
        (\<exists>r. run_fix src c st = Some (r, st)))"
  using run_fix_Some [of src c st result st' st2] run_fix_returns [of src c st]
  by blast

text \<open>
  The witness evaluates both kinds of closure, each as its visit reports it: the join
  closure of the second statement of \<^verbatim>\<open>var a; var b;\<close> under \<^verbatim>\<open>"always"\<close>, and the
  split closure of \<^verbatim>\<open>var a, b;\<close> under \<^verbatim>\<open>"never"\<close>; each in the state of its
  visit and in the empty state after the traversal.
\<close>

lemma pair_visit_never:
  "checkVariableDeclaration statement_list_parents (create_options (ModeString MODE_NEVER))
     pair_node pair_program program_state
   = Inr ([\<lparr> messageId = Split, data_type = Some Var,
             rfix = Some (SplitClosure pair_node pair_program) \<rparr>], program_state)"
  by code_simp

lemma pair_fix_run:
  "run_fix pair_source (SplitClosure pair_node pair_program) program_state
     = Some (Inr [\<lparr> erange = (5, 6), etext = ''; var'' \<rparr>], program_state)"
  by code_simp

lemma join_visit_always:
  "checkVariableDeclaration statement_list_parents (create_options (ModeString MODE_ALWAYS))
     join_node join_program uninitialized_seen
   = Inr ([\<lparr> messageId = Combine, data_type = Some Var,
             rfix = Some (JoinClosure \<lparr> init = None, drange = (11, 12) \<rparr>
                            (Some (VariableDeclaration first_node))) \<rparr>],
          uninitialized_seen)"
  by code_simp

lemma join_fix_run:
  "run_fix join_source
     (JoinClosure \<lparr> init = None, drange = (11, 12) \<rparr> (Some (VariableDeclaration first_node)))
     uninitialized_seen
   = Some (Inr [\<lparr> erange = (5, 6), etext = '','' \<rparr>, \<lparr> erange = (7, 10), etext = '''' \<rparr>],
           uninitialized_seen)"
  by code_simp

lemma example_sources_ranges:
  "(\<forall>t \<in> set (tokensAndComments pair_source). fst (trange t) < snd (trange t))
   \<and> (\<forall>t \<in> set (tokensAndComments join_source). fst (trange t) < snd (trange t))"
  by (simp add: pair_source_def join_source_def)

theorem run_fix_frame_witness:
  "checkVariableDeclaration statement_list_parents (create_options (ModeString MODE_ALWAYS))
     join_node join_program uninitialized_seen
   = Inr ([\<lparr> messageId = Combine, data_type = Some Var,
             rfix = Some (JoinClosure \<lparr> init = None, drange = (11, 12) \<rparr>
                            (Some (VariableDeclaration first_node))) \<rparr>],
          uninitialized_seen)
   \<and> run_fix join_source
       (JoinClosure \<lparr> init = None, drange = (11, 12) \<rparr> (Some (VariableDeclaration first_node)))
       uninitialized_seen
     = Some (Inr [\<lparr> erange = (5, 6), etext = '','' \<rparr>, \<lparr> erange = (7, 10), etext = '''' \<rparr>],
             uninitialized_seen)
   \<and> run_fix join_source
       (JoinClosure \<lparr> init = None, drange = (11, 12) \<rparr> (Some (VariableDeclaration first_node)))
       empty_state
     = Some (Inr [\<lparr> erange = (5, 6), etext = '','' \<rparr>, \<lparr> erange = (7, 10), etext = '''' \<rparr>],
             empty_state)
   \<and> checkVariableDeclaration statement_list_parents (create_options (ModeString MODE_NEVER))
       pair_node pair_program program_state
     = Inr ([\<lparr> messageId = Split, data_type = Some Var,
               rfix = Some (SplitClosure pair_node pair_program) \<rparr>], program_state)
   \<and> run_fix pair_source (SplitClosure pair_node pair_program) program_state
     = Some (Inr [\<lparr> erange = (5, 6), etext = ''; var'' \<rparr>], program_state)
   \<and> run_fix pair_source (SplitClosure pair_node pair_program) empty_state
     = Some (Inr [\<lparr> erange = (5, 6), etext = ''; var'' \<rparr>], empty_state)
   \<and> (\<exists>r. run_fix pair_source (SplitClosure pair_node pair_program) uninitialized_seen
            = Some (r, uninitialized_seen))"
proof -
  let ?join = "JoinClosure \<lparr> init = None, drange = (11, 12) \<rparr>
                 (Some (VariableDeclaration first_node))"
  let ?split = "SplitClosure pair_node pair_program"
  have "run_fix join_source ?join empty_state
     = Some (Inr [\<lparr> erange = (5, 6), etext = '','' \<rparr>, \<lparr> erange = (7, 10), etext = '''' \<rparr>],
             empty_state)"
    using run_fix_frame [of join_source ?join uninitialized_seen _ uninitialized_seen empty_state]
      join_fix_run by blast
  moreover have "run_fix pair_source ?split empty_state
     = Some (Inr [\<lparr> erange = (5, 6), etext = ''; var'' \<rparr>], empty_state)"
    using run_fix_frame [of pair_source ?split program_state _ program_state empty_state]
      pair_fix_run by blast
  moreover have "\<exists>r. run_fix pair_source ?split uninitialized_seen
                       = Some (r, uninitialized_seen)"
    using run_fix_frame [of pair_source ?split uninitialized_seen]
      example_sources_ranges by blast
  ultimately show ?thesis
    using join_visit_always join_fix_run pair_visit_never pair_fix_run by blast
qed

section \<open>The two scope stacks\<close>

subsection \<open>A visit touches the top of one stack\<close>

lemma setCurrentScope_frame:
  assumes "getCurrentScope t st = Some sc"
  shows "same_below st (setCurrentScope t sc' st)
         \<and> (if t = Var then blockStack (setCurrentScope t sc' st) = blockStack st
             else functionStack (setCurrentScope t sc' st) = functionStack st)"
  using assms by (cases t) (auto simp: same_below_def split: if_splits)

lemma same_below_refl: "same_below st st"
  by (simp add: same_below_def)

lemma same_below_trans: "same_below a b \<Longrightarrow> same_below b c \<Longrightarrow> same_below a c"
  by (simp add: same_below_def)

lemma hasOnlyOneStatement_state:
  assumes "hasOnlyOneStatement opts t ds st = Inr (b, st')"
  shows "st' = st \<or> (\<exists>sc sc'. getCurrentScope t st = Some sc \<and> st' = setCurrentScope t sc' st)"
proof (cases b)
  case True
  with assms have "hasOnlyOneStatement opts t ds st = Inr (True, st')" by simp
  from hasOnlyOneStatement_True [OF this] show ?thesis by blast
next
  case False
  with assms have "hasOnlyOneStatement opts t ds st = Inr (False, st')" by simp
  from hasOnlyOneStatement_False [OF this] show ?thesis by simp
qed

lemma checkVariableDeclaration_state:
  assumes "checkVariableDeclaration slp opts node parent st = Inr (rs, st')"
  shows "st' = st
         \<or> (\<exists>sc sc'. getCurrentScope (kind node) st = Some sc
                      \<and> st' = setCurrentScope (kind node) sc' st)"
proof (cases "options_of opts (kind node)")
  case None
  with assms show ?thesis by (simp add: checkVariableDeclaration_def)
next
  case (Some ko)
  from checkVariableDeclaration_parts [OF assms Some]
  obtain as returned where "always_check opts ko node parent st = Inr (as, returned, st')"
    by blast
  from always_check_Inr [OF this] hasOnlyOneStatement_state show ?thesis by blast
qed

lemma checkVariableDeclaration_frame:
  assumes "checkVariableDeclaration slp opts node parent st = Inr (rs, st')"
  shows "same_below st st'
         \<and> (if kind node = Var then blockStack st' = blockStack st
             else functionStack st' = functionStack st)"
  using checkVariableDeclaration_state [OF assms] setCurrentScope_frame same_below_refl
  by (metis (full_types))

lemma getCurrentScope_nonempty:
  assumes "functionStack st \<noteq> []" and "blockStack st \<noteq> []"
  shows "getCurrentScope Var st = Some (last (functionStack st))
         \<and> getCurrentScope Let st = Some (let_scope (last (blockStack st)))
         \<and> getCurrentScope Const st = Some (const_scope (last (blockStack st)))"
  using assms by simp

lemma visit_returns:
  assumes "functionStack st \<noteq> []" and "blockStack st \<noteq> []" and "declarations node \<noteq> []"
  shows "\<exists>rs st'. checkVariableDeclaration slp opts node parent st = Inr (rs, st')"
proof (cases "options_of opts (kind node)")
  case None
  then show ?thesis by (simp add: checkVariableDeclaration_def)
next
  case (Some ko)
  then have "kind node = Var \<or> kind node = Let \<or> kind node = Const"
    by (cases "kind node") simp_all
  with getCurrentScope_nonempty [OF assms(1,2)]
  obtain sc where "getCurrentScope (kind node) st = Some sc" by auto
  from checkVariableDeclaration_returns [OF this assms(3) Some, of parent slp]
  show ?thesis by blast
qed

lemma run_append:
  "run slp opts (es @ fs) st =
     (case run slp opts es st of
        Inl x \<Rightarrow> Inl x
      | Inr (rs, st1) \<Rightarrow>
          (case run slp opts fs st1 of
             Inl x \<Rightarrow> Inl x
           | Inr (rs', st2) \<Rightarrow> Inr (rs @ rs', st2)))"
  by (induction es arbitrary: st) (auto split: sum.splits)

lemma run_append_Inr:
  assumes "run slp opts es st = Inr (rs, st1)" and "run slp opts fs st1 = Inr (rs', st2)"
  shows "run slp opts (es @ fs) st = Inr (rs @ rs', st2)"
  using assms by (simp add: run_append)

lemma endFunction_startFunction: "endFunction (startFunction st) = st"
  by (simp add: endFunction_def startFunction_def endBlock_def startBlock_def)

lemma endBlock_startBlock: "endBlock (startBlock st) = st"
  by (simp add: endBlock_def startBlock_def)

lemma endFunction_same_below:
  assumes "same_below (startFunction st) st1"
  shows "endFunction st1 = st"
  using assms
  by (simp add: same_below_def endFunction_def endBlock_def startFunction_def startBlock_def)

lemma endBlock_same_below:
  assumes "same_below (startBlock st) st1"
  shows "same_below st (endBlock st1) \<and> blockStack (endBlock st1) = blockStack st"
  using assms
  by (auto simp: same_below_def endBlock_def startBlock_def)

subsection \<open>Balanced sequences of events\<close>

lemma same_below_nonempty:
  assumes "same_below st st'" and "functionStack st \<noteq> []" and "blockStack st \<noteq> []"
  shows "functionStack st' \<noteq> [] \<and> blockStack st' \<noteq> []"
  using assms by (auto simp: same_below_def)

lemma startFunction_nonempty:
  "functionStack (startFunction st) \<noteq> [] \<and> blockStack (startFunction st) \<noteq> []"
  by (simp add: startFunction_def startBlock_def)

lemma startBlock_nonempty:
  assumes "functionStack st \<noteq> []"
  shows "functionStack (startBlock st) \<noteq> [] \<and> blockStack (startBlock st) \<noteq> []"
  using assms by (simp add: startBlock_def)

lemma balanced_run:
  assumes "balanced es" and "list_all has_declarator es"
    and "functionStack st \<noteq> []" and "blockStack st \<noteq> []"
  shows "\<exists>rs st'. run slp opts es st = Inr (rs, st') \<and> same_below st st'"
  using assms
proof (induction es arbitrary: st rule: balanced.induct)
  case balanced_Nil
  show ?case by (simp add: same_below_refl)
next
  case (balanced_Visit node parent)
  then have "declarations node \<noteq> []" by simp
  from visit_returns [OF balanced_Visit.prems(2,3) this, of slp opts parent]
  obtain rs st' where v: "checkVariableDeclaration slp opts node parent st = Inr (rs, st')"
    by blast
  with checkVariableDeclaration_frame [OF v] show ?case by simp
next
  case (balanced_function es)
  from balanced_function.prems have ok: "list_all has_declarator es" by simp
  from balanced_function.IH [OF ok, of "startFunction st"] startFunction_nonempty [of st]
  obtain rs st1 where r: "run slp opts es (startFunction st) = Inr (rs, st1)"
    and s: "same_below (startFunction st) st1" by blast
  have "run slp opts [ExitFunction] st1 = Inr ([], st)"
    using endFunction_same_below [OF s] by simp
  from run_append_Inr [OF r this]
  have "run slp opts (EnterFunction # es @ [ExitFunction]) st = Inr (rs, st)" by simp
  then show ?case using same_below_refl by blast
next
  case (balanced_block es)
  from balanced_block.prems have ok: "list_all has_declarator es" by simp
  from balanced_block.IH [OF ok, of "startBlock st"]
    startBlock_nonempty [OF balanced_block.prems(2)]
  obtain rs st1 where r: "run slp opts es (startBlock st) = Inr (rs, st1)"
    and s: "same_below (startBlock st) st1" by blast
  have "run slp opts [ExitBlock] st1 = Inr ([], endBlock st1)" by simp
  from run_append_Inr [OF r this]
  have "run slp opts (EnterBlock # es @ [ExitBlock]) st = Inr (rs, endBlock st1)" by simp
  with endBlock_same_below [OF s] show ?case by blast
next
  case (balanced_append es fs)
  from balanced_append.prems have ok: "list_all has_declarator es" "list_all has_declarator fs"
    by simp_all
  from balanced_append.IH(1) [OF ok(1) balanced_append.prems(2,3)]
  obtain rs st1 where r1: "run slp opts es st = Inr (rs, st1)" and s1: "same_below st st1"
    by blast
  from same_below_nonempty [OF s1 balanced_append.prems(2,3)]
  have "functionStack st1 \<noteq> []" and "blockStack st1 \<noteq> []" by simp_all
  from balanced_append.IH(2) [OF ok(2) this]
  obtain rs' st2 where r2: "run slp opts fs st1 = Inr (rs', st2)" and s2: "same_below st1 st2"
    by blast
  from run_append_Inr [OF r1 r2] same_below_trans [OF s1 s2] show ?case by blast
qed

lemma balanced_function_run:
  assumes "balanced es" and "list_all has_declarator es"
  shows "\<exists>rs. run slp opts (EnterFunction # es @ [ExitFunction]) st = Inr (rs, st)"
proof -
  from balanced_run [OF assms, of "startFunction st" slp opts] startFunction_nonempty [of st]
  obtain rs st1 where r: "run slp opts es (startFunction st) = Inr (rs, st1)"
    and s: "same_below (startFunction st) st1" by blast
  have "run slp opts [ExitFunction] st1 = Inr ([], st)"
    using endFunction_same_below [OF s] by simp
  from run_append_Inr [OF r this] show ?thesis by simp
qed

lemma balanced_scope_run:
  assumes "balanced es" and "list_all is_scope_event es"
  shows "run slp opts es st = Inr ([], st)"
  using assms
proof (induction es arbitrary: st rule: balanced.induct)
  case balanced_Nil
  show ?case by simp
next
  case (balanced_Visit node parent)
  then show ?case by simp
next
  case (balanced_function es)
  then have "run slp opts es (startFunction st) = Inr ([], startFunction st)" by simp
  then show ?case by (simp add: run_append endFunction_startFunction)
next
  case (balanced_block es)
  then have "run slp opts es (startBlock st) = Inr ([], startBlock st)" by simp
  then show ?case by (simp add: run_append endBlock_startBlock)
next
  case (balanced_append es fs)
  then show ?case by (simp add: run_append)
qed

subsection \<open>Prefixes of balanced sequences\<close>

lemma same_below_at_least: "same_below st st' \<Longrightarrow> at_least st st'"
  by (simp add: same_below_def at_least_def)

lemma at_least_trans: "at_least a b \<Longrightarrow> at_least b c \<Longrightarrow> at_least a c"
  by (simp add: at_least_def)

lemma at_least_startFunction: "at_least st (startFunction st)"
  by (simp add: at_least_def startFunction_def startBlock_def)

lemma at_least_startBlock: "at_least st (startBlock st)"
  by (simp add: at_least_def startBlock_def)

lemma balanced_prefix_run:
  assumes "balanced es" and "prefix p es" and "list_all has_declarator es"
    and "functionStack st \<noteq> []" and "blockStack st \<noteq> []"
  shows "\<exists>rs st'. run slp opts p st = Inr (rs, st') \<and> at_least st st'"
  using assms
proof (induction es arbitrary: p st rule: balanced.induct)
  case balanced_Nil
  then show ?case by (simp add: at_least_def)
next
  case (balanced_Visit node parent)
  from balanced_Visit.prems(1) consider "p = []" | "p = [Visit node parent]"
    by (cases p) auto
  then show ?case
  proof cases
    case 1
    then show ?thesis by (simp add: at_least_def)
  next
    case 2
    from balanced_run [OF balanced.balanced_Visit balanced_Visit.prems(2,3,4), of slp opts]
      same_below_at_least
    show ?thesis unfolding 2 by blast
  qed
next
  case (balanced_function es)
  from balanced_function.prems(2) have ok: "list_all has_declarator es" by simp
  show ?case
  proof (cases p)
    case Nil
    then show ?thesis by (simp add: at_least_def)
  next
    case (Cons e p')
    with balanced_function.prems(1) have e: "e = EnterFunction"
      and p': "prefix p' (es @ [ExitFunction])" by simp_all
    from p' consider "prefix p' es" | "p' = es @ [ExitFunction]"
      by (auto simp: prefix_snoc)
    then show ?thesis
    proof cases
      case 1
      from balanced_function.IH [OF 1 ok, of "startFunction st"] startFunction_nonempty [of st]
      obtain rs st' where r: "run slp opts p' (startFunction st) = Inr (rs, st')"
        and a: "at_least (startFunction st) st'" by blast
      from r have "run slp opts p st = Inr (rs, st')" unfolding Cons e by simp
      with at_least_trans [OF at_least_startFunction a] show ?thesis by blast
    next
      case 2
      from balanced_function_run [OF balanced_function.hyps ok, of slp opts st]
      show ?thesis unfolding Cons e 2 by (auto simp: at_least_def)
    qed
  qed
next
  case (balanced_block es)
  from balanced_block.prems(2) have ok: "list_all has_declarator es" by simp
  show ?case
  proof (cases p)
    case Nil
    then show ?thesis by (simp add: at_least_def)
  next
    case (Cons e p')
    with balanced_block.prems(1) have e: "e = EnterBlock"
      and p': "prefix p' (es @ [ExitBlock])" by simp_all
    from p' consider "prefix p' es" | "p' = es @ [ExitBlock]"
      by (auto simp: prefix_snoc)
    then show ?thesis
    proof cases
      case 1
      from balanced_block.IH [OF 1 ok, of "startBlock st"]
        startBlock_nonempty [OF balanced_block.prems(3)]
      obtain rs st' where r: "run slp opts p' (startBlock st) = Inr (rs, st')"
        and a: "at_least (startBlock st) st'" by blast
      from r have "run slp opts p st = Inr (rs, st')" unfolding Cons e by simp
      with at_least_trans [OF at_least_startBlock a] show ?thesis by blast
    next
      case 2
      from balanced_run [OF balanced.balanced_block [OF balanced_block.hyps]
          balanced_block.prems(2,3,4), of slp opts] same_below_at_least
      show ?thesis unfolding Cons e 2 by blast
    qed
  qed
next
  case (balanced_append es fs)
  from balanced_append.prems(2) have ok: "list_all has_declarator es" "list_all has_declarator fs"
    by simp_all
  from balanced_append.prems(1) consider "prefix p es" | us where "p = es @ us" "prefix us fs"
    by (auto simp: prefix_append)
  then show ?case
  proof cases
    case 1
    from balanced_append.IH(1) [OF 1 ok(1) balanced_append.prems(3,4)] show ?thesis .
  next
    case 2
    from balanced_run [OF balanced_append.hyps(1) ok(1) balanced_append.prems(3,4), of slp opts]
    obtain rs st1 where r1: "run slp opts es st = Inr (rs, st1)" and s1: "same_below st st1"
      by blast
    from same_below_nonempty [OF s1 balanced_append.prems(3,4)]
    have "functionStack st1 \<noteq> []" and "blockStack st1 \<noteq> []" by simp_all
    from balanced_append.IH(2) [OF 2(2) ok(2) this]
    obtain rs' st2 where r2: "run slp opts us st1 = Inr (rs', st2)" and a: "at_least st1 st2"
      by blast
    from run_append_Inr [OF r1 r2] at_least_trans [OF same_below_at_least [OF s1] a]
    show ?thesis unfolding 2(1) by blast
  qed
qed

lemma traversal_point:
  assumes "balanced es" and "prefix p es" and "list_all has_declarator es"
  shows "\<exists>rs st'. run slp opts (EnterFunction # p) st = Inr (rs, st')
           \<and> getCurrentScope Var st' = Some (last (functionStack st'))
           \<and> getCurrentScope Let st' = Some (let_scope (last (blockStack st')))
           \<and> getCurrentScope Const st' = Some (const_scope (last (blockStack st')))"
proof -
  from balanced_prefix_run [OF assms, of "startFunction st" slp opts] startFunction_nonempty [of st]
  obtain rs st' where r: "run slp opts p (startFunction st) = Inr (rs, st')"
    and a: "at_least (startFunction st) st'" by blast
  from a startFunction_nonempty [of st]
  have "functionStack st' \<noteq> []" and "blockStack st' \<noteq> []"
    by (auto simp: at_least_def)
  from getCurrentScope_nonempty [OF this] r show ?thesis by simp
qed

text \<open>
  Claim C8. Source lines 226 to 260 and 628 to 652. Entering a function pushes one
  fresh record on each stack and entering a block pushes one fresh record on the block
  stack only; the matching exit pops what was pushed. So a balanced sequence \<open>es\<close>
  of enter and exit events leaves both stacks as they were. With the visits of
  declarations among the events (each with a declarator, as the parser gives them), the
  events of a whole function still leave both stacks as they were, and a balanced
  sequence run on non-empty stacks keeps their heights and all records below the tops.
  At every point of a traversal, that is after entering a function and any prefix
  \<open>p\<close> of a balanced sequence, no hook has thrown and both stacks have a top: the
  current record of \<^verbatim>\<open>var\<close> is the top of the function stack, the current record of
  \<^verbatim>\<open>let\<close> and of \<^verbatim>\<open>const\<close> is in the top of the block stack. The visit of a
  \<^verbatim>\<open>var\<close> statement leaves the block stack as it was, the visit of a statement of
  another kind the function stack.
\<close>

theorem scope_stack_discipline:
  assumes "balanced es" and "prefix p es" and "list_all has_declarator es"
  shows "handle slp opts EnterFunction st
           = Inr ([], st\<lparr> functionStack := functionStack st @ [fresh_scope],
                           blockStack := blockStack st @ [fresh_block] \<rparr>)
         \<and> handle slp opts EnterBlock st
           = Inr ([], st\<lparr> blockStack := blockStack st @ [fresh_block] \<rparr>)
         \<and> run slp opts [EnterFunction, ExitFunction] st = Inr ([], st)
         \<and> run slp opts [EnterBlock, ExitBlock] st = Inr ([], st)
         \<and> (list_all is_scope_event es \<longrightarrow> run slp opts es st = Inr ([], st))
         \<and> (\<exists>rs. run slp opts (EnterFunction # es @ [ExitFunction]) st = Inr (rs, st))
         \<and> (functionStack st \<noteq> [] \<and> blockStack st \<noteq> [] \<longrightarrow>
              (\<exists>rs st'. run slp opts es st = Inr (rs, st') \<and> same_below st st'))
         \<and> (\<exists>rs st'. run slp opts (EnterFunction # p) st = Inr (rs, st')
                \<and> getCurrentScope Var st' = Some (last (functionStack st'))
                \<and> getCurrentScope Let st' = Some (let_scope (last (blockStack st')))
                \<and> getCurrentScope Const st' = Some (const_scope (last (blockStack st'))))
         \<and> (checkVariableDeclaration slp opts node parent st = Inr (reports, visited) \<longrightarrow>
              same_below st visited
              \<and> (if kind node = Var then blockStack visited = blockStack st
                  else functionStack visited = functionStack st))"
proof (intro conjI impI)
  show "handle slp opts EnterFunction st
           = Inr ([], st\<lparr> functionStack := functionStack st @ [fresh_scope],
                           blockStack := blockStack st @ [fresh_block] \<rparr>)"
    by (simp add: startFunction_def startBlock_def)
  show "handle slp opts EnterBlock st
           = Inr ([], st\<lparr> blockStack := blockStack st @ [fresh_block] \<rparr>)"
    by (simp add: startBlock_def)
  show "run slp opts [EnterFunction, ExitFunction] st = Inr ([], st)"
    by (simp add: endFunction_startFunction)
  show "run slp opts [EnterBlock, ExitBlock] st = Inr ([], st)"
    by (simp add: endBlock_startBlock)
  show "run slp opts es st = Inr ([], st)" if "list_all is_scope_event es"
    using balanced_scope_run [OF assms(1) that] .
  show "\<exists>rs. run slp opts (EnterFunction # es @ [ExitFunction]) st = Inr (rs, st)"
    using balanced_function_run [OF assms(1,3)] .
  show "\<exists>rs st'. run slp opts es st = Inr (rs, st') \<and> same_below st st'"
    if "functionStack st \<noteq> [] \<and> blockStack st \<noteq> []"
    using balanced_run [OF assms(1,3)] that by blast
  show "\<exists>rs st'. run slp opts (EnterFunction # p) st = Inr (rs, st')
                \<and> getCurrentScope Var st' = Some (last (functionStack st'))
                \<and> getCurrentScope Let st' = Some (let_scope (last (blockStack st')))
                \<and> getCurrentScope Const st' = Some (const_scope (last (blockStack st')))"
    using traversal_point [OF assms] .
  show "same_below st visited"
    if "checkVariableDeclaration slp opts node parent st = Inr (reports, visited)"
    using checkVariableDeclaration_frame [OF that] by simp
  show "if kind node = Var then blockStack visited = blockStack st
        else functionStack visited = functionStack st"
    if "checkVariableDeclaration slp opts node parent st = Inr (reports, visited)"
    using checkVariableDeclaration_frame [OF that] by simp
qed

text \<open>
  The witness: a function in a block, without visits, and the traversal of
  \<^verbatim>\<open>var a; var b, c = 1;\<close> under
  \<^verbatim>\<open>{ uninitialized: "always", initialized: "never" }\<close>.
\<close>

lemma nested_balanced:
  "balanced [EnterBlock, EnterFunction, ExitFunction, ExitBlock]
   \<and> prefix [EnterBlock, EnterFunction] [EnterBlock, EnterFunction, ExitFunction, ExitBlock]
   \<and> list_all has_declarator [EnterBlock, EnterFunction, ExitFunction, ExitBlock]
   \<and> list_all is_scope_event [EnterBlock, EnterFunction, ExitFunction, ExitBlock]"
  using balanced_block [OF balanced_function [OF balanced_Nil]] by simp

lemma two_visits_balanced:
  "balanced [Visit first_node two_program, Visit second_node two_program]
   \<and> prefix [Visit first_node two_program, Visit second_node two_program]
       [Visit first_node two_program, Visit second_node two_program]
   \<and> list_all has_declarator [Visit first_node two_program, Visit second_node two_program]"
proof -
  have "declarations first_node \<noteq> [] \<and> declarations second_node \<noteq> []" by code_simp
  then show ?thesis
    using balanced_append [OF balanced_Visit [of first_node two_program]
        balanced_Visit [of second_node two_program]]
    by simp
qed

lemma two_visits_run:
  "map_sum id (\<lambda>(rs, st). (messages rs, st))
     (run statement_list_parents (create_options always_never_config)
        [EnterFunction, Visit first_node two_program, Visit second_node two_program]
        empty_state)
   = Inr ([CombineUninitialized, SplitInitialized], uninitialized_seen)
   \<and> map_sum id (\<lambda>(rs, st). (messages rs, st))
     (run statement_list_parents (create_options always_never_config)
        [EnterFunction, Visit first_node two_program, Visit second_node two_program,
         ExitFunction] empty_state)
   = Inr ([CombineUninitialized, SplitInitialized], empty_state)
   \<and> getCurrentScope Var uninitialized_seen
     = Some \<lparr> initialized = False, uninitialized = True, required = False \<rparr>
   \<and> getCurrentScope Let uninitialized_seen = Some fresh_scope"
  by code_simp

theorem scope_stack_discipline_witness:
  "run statement_list_parents (create_options always_never_config)
     [EnterBlock, EnterFunction, ExitFunction, ExitBlock] program_state = Inr ([], program_state)
   \<and> (\<exists>rs st'. run statement_list_parents (create_options always_never_config)
         [EnterFunction, EnterBlock, EnterFunction] program_state = Inr (rs, st')
       \<and> getCurrentScope Var st' = Some (last (functionStack st'))
       \<and> getCurrentScope Let st' = Some (let_scope (last (blockStack st'))))
   \<and> (\<exists>rs. run statement_list_parents (create_options always_never_config)
         [EnterFunction, Visit first_node two_program, Visit second_node two_program,
          ExitFunction] empty_state = Inr (rs, empty_state))
   \<and> (\<exists>rs st'. run statement_list_parents (create_options always_never_config)
         [EnterFunction, Visit first_node two_program, Visit second_node two_program]
         empty_state = Inr (rs, st')
       \<and> getCurrentScope Var st' = Some (last (functionStack st'))
       \<and> getCurrentScope Let st' = Some (let_scope (last (blockStack st'))))
   \<and> map_sum id (\<lambda>(rs, st). (messages rs, st))
       (run statement_list_parents (create_options always_never_config)
          [EnterFunction, Visit first_node two_program, Visit second_node two_program]
          empty_state)
     = Inr ([CombineUninitialized, SplitInitialized], uninitialized_seen)"
proof -
  let ?slp = statement_list_parents
  let ?opts = "create_options always_never_config"
  have a: "balanced [EnterBlock, EnterFunction, ExitFunction, ExitBlock]"
    and b: "prefix [EnterBlock, EnterFunction] [EnterBlock, EnterFunction, ExitFunction, ExitBlock]"
    and c: "list_all has_declarator [EnterBlock, EnterFunction, ExitFunction, ExitBlock]"
    and d: "list_all is_scope_event [EnterBlock, EnterFunction, ExitFunction, ExitBlock]"
    using nested_balanced by simp_all
  have e: "balanced [Visit first_node two_program, Visit second_node two_program]"
    and f: "prefix [Visit first_node two_program, Visit second_node two_program]
       [Visit first_node two_program, Visit second_node two_program]"
    and g: "list_all has_declarator [Visit first_node two_program, Visit second_node two_program]"
    using two_visits_balanced by simp_all
  note nested = scope_stack_discipline [OF a b c, of ?slp ?opts program_state]
  note visits = scope_stack_discipline [OF e f g, of ?slp ?opts empty_state]
  note nested_scope =
    nested [THEN conjunct2, THEN conjunct2, THEN conjunct2, THEN conjunct2, THEN conjunct1]
  note nested_point =
    nested [THEN conjunct2, THEN conjunct2, THEN conjunct2, THEN conjunct2, THEN conjunct2,
            THEN conjunct2, THEN conjunct2, THEN conjunct1]
  note visits_function =
    visits [THEN conjunct2, THEN conjunct2, THEN conjunct2, THEN conjunct2, THEN conjunct2,
            THEN conjunct1]
  note visits_point =
    visits [THEN conjunct2, THEN conjunct2, THEN conjunct2, THEN conjunct2, THEN conjunct2,
            THEN conjunct2, THEN conjunct2, THEN conjunct1]
  from nested_scope d have 1: "run ?slp ?opts [EnterBlock, EnterFunction, ExitFunction, ExitBlock]
      program_state = Inr ([], program_state)" by (rule mp)
  from nested_point have 2: "\<exists>rs st'. run ?slp ?opts [EnterFunction, EnterBlock, EnterFunction]
         program_state = Inr (rs, st')
       \<and> getCurrentScope Var st' = Some (last (functionStack st'))
       \<and> getCurrentScope Let st' = Some (let_scope (last (blockStack st')))" by blast
  from visits_function have 3: "\<exists>rs. run ?slp ?opts
         [EnterFunction, Visit first_node two_program, Visit second_node two_program,
          ExitFunction] empty_state = Inr (rs, empty_state)"
    by (simp only: append.simps)
  from visits_point have 4: "\<exists>rs st'. run ?slp ?opts
         [EnterFunction, Visit first_node two_program, Visit second_node two_program]
         empty_state = Inr (rs, st')
       \<and> getCurrentScope Var st' = Some (last (functionStack st'))
       \<and> getCurrentScope Let st' = Some (let_scope (last (blockStack st')))" by blast
  from 1 2 3 4 two_visits_run [THEN conjunct1] show ?thesis by blast
qed

end
